theory Spec2Isabelle
  imports Complex_Main
begin

section \<open>Values, errors and references\<close>

text \<open>
  The driver of \<^verbatim>\<open>lib/FrameManager.js\<close> is single-threaded: every protocol event handler
  and every segment of an \<^verbatim>\<open>async\<close> function between two \<^verbatim>\<open>await\<close>s runs to completion
  on one event-queue turn.  The model is therefore a \<open>world\<close> (the object heap plus the
  manager's own fields) and one state-passing function per handler or segment.  A handler
  that throws returns \<open>Throw e\<close> together with the world as the mutations made before the
  throw left it.
\<close>

type_synonym frame_ref = nat
type_synonym task_ref = nat
type_synonym timer_ref = nat
type_synonym handle = nat

text \<open>A JavaScript number, as far as this file looks at one: compared with zero, tested
  for truthiness, converted to text.\<close>

datatype jsnum = Num real | NaN | PosInfinity | NegInfinity

fun num_truthy :: "jsnum \<Rightarrow> bool" where
  "num_truthy (Num x) = (x \<noteq> 0)"
| "num_truthy NaN = False"
| "num_truthy PosInfinity = True"
| "num_truthy NegInfinity = True"

text \<open>\<^verbatim>\<open>n > 0\<close>\<close>

fun num_gt_zero :: "jsnum \<Rightarrow> bool" where
  "num_gt_zero (Num x) = (0 < x)"
| "num_gt_zero NaN = False"
| "num_gt_zero PosInfinity = True"
| "num_gt_zero NegInfinity = False"

text \<open>\<^verbatim>\<open>n <= 0\<close>\<close>

fun num_le_zero :: "jsnum \<Rightarrow> bool" where
  "num_le_zero (Num x) = (x \<le> 0)"
| "num_le_zero NaN = False"
| "num_le_zero PosInfinity = False"
| "num_le_zero NegInfinity = True"

text \<open>
  \<open>Error m\<close> is \<^verbatim>\<open>new Error(m)\<close> (also an error surfaced by a collaborator, with its
  message), \<open>TimeoutError m\<close> the class of \<^verbatim>\<open>./Errors\<close>, and \<open>TypeError m\<close> what the
  runtime throws when a property is read from \<^verbatim>\<open>null\<close> or \<^verbatim>\<open>undefined\<close>.
\<close>

datatype js_error = Error string | TimeoutError string | TypeError string

fun message :: "js_error \<Rightarrow> string" where
  "message (Error m) = m"
| "message (TimeoutError m) = m"
| "message (TypeError m) = m"

text \<open>The runtime's message for \<^verbatim>\<open>x.prop\<close> with \<^verbatim>\<open>x\<close> null or undefined.\<close>

definition cannot_read :: "string \<Rightarrow> string \<Rightarrow> js_error" where
  "cannot_read prop of_what = TypeError (''Cannot read property '' @ prop @ '' of '' @ of_what)"

datatype 'a completion = Normal 'a | Throw js_error

text \<open>
  Modelled from the spec: \<^verbatim>\<open>assert\<close> of \<^verbatim>\<open>./helper\<close> is not part of the sources at hand;
  a failed assertion is "a fatal invariant violation", an \<open>Error\<close> carrying the message.
  \<open>None\<close> means that the assertion passed.
\<close>

definition assert :: "bool \<Rightarrow> string \<Rightarrow> js_error option" where
  "assert v msg = (if v then None else Some (Error msg))"

text \<open>A JavaScript \<^verbatim>\<open>Set\<close>: insertion-ordered, without duplicates.\<close>

definition set_add :: "'a \<Rightarrow> 'a list \<Rightarrow> 'a list" where
  "set_add x xs = (if x \<in> set xs then xs else xs @ [x])"

definition set_delete :: "'a \<Rightarrow> 'a list \<Rightarrow> 'a list" where
  "set_delete x xs = filter (\<lambda>y. y \<noteq> x) xs"

text \<open>\<^verbatim>\<open>String.prototype.toLowerCase\<close> on the ASCII letters; other characters are kept.\<close>

definition toLowerCase :: "string \<Rightarrow> string" where
  "toLowerCase s =
     map (\<lambda>c. let n = (of_char c :: nat) in if 65 \<le> n \<and> n \<le> 90 then char_of (n + 32) else c) s"

text \<open>\<^verbatim>\<open>s.includes(pat)\<close>\<close>

fun str_includes :: "string \<Rightarrow> string \<Rightarrow> bool" where
  "str_includes [] pat = (pat = [])"
| "str_includes (c # cs) pat = (take (length pat) (c # cs) = pat \<or> str_includes cs pat)"

section \<open>Objects\<close>

datatype polling_value =
    PollString string
  | PollNumber jsnum
  | PollOther string  \<comment> \<open>neither a string nor a number; the argument is its conversion to text\<close>

datatype promise_state = Pending | Resolved handle | Rejected js_error

text \<open>Settling a promise a second time has no effect.\<close>

definition settle :: "promise_state \<Rightarrow> promise_state \<Rightarrow> promise_state" where
  "settle outcome p = (case p of Pending \<Rightarrow> outcome | _ \<Rightarrow> p)"

datatype timer_action =
    TerminateTask task_ref js_error    \<comment> \<open>\<^verbatim>\<open>() => this.terminate(timeoutError)\<close>\<close>
  | ResolveTimeout js_error            \<comment> \<open>\<^verbatim>\<open>resolve.bind(null, timeoutError)\<close>\<close>

datatype event =
    FrameAttached frame_ref
  | FrameDetached frame_ref
  | FrameNavigated frame_ref
  | Load
  | DOMContentLoaded

text \<open>The fields of \<^verbatim>\<open>class Frame\<close> that hold state (the collaborators passed to the
  constructor are left out).  A field that is \<^verbatim>\<open>undefined\<close> until first assigned is an
  option.\<close>

record frame =
  f_frameId :: string
  f_parentFrame :: "frame_ref option"
  f_url :: string
  f_name :: string
  f_children :: "frame_ref list"
  f_isDetached :: bool
  f_firedEvents :: "string list"
  f_waitTasks :: "task_ref list"
  f_documentPromise :: "nat option"
  f_lastCommittedNavigationId :: "string option"
  f_DOMContentLoadedFired :: "bool option"
  f_loadFired :: "bool option"

record wait_task =
  t_frame :: frame_ref
  t_polling :: polling_value
  t_timeout :: jsnum
  t_predicateBody :: string
  t_args :: "string list"
  t_runCount :: nat
  t_terminated :: bool               \<comment> \<open>\<^verbatim>\<open>undefined\<close> (falsy) until \<^verbatim>\<open>terminate\<close>\<close>
  t_promise :: promise_state
  t_timeoutTimer :: "timer_ref option"
  t_runningTask_null :: bool         \<comment> \<open>\<^verbatim>\<open>_runningTask\<close> has been set to \<^verbatim>\<open>null\<close>\<close>

record world =
  m_mainFrame :: "frame_ref option"
  m_frames :: "string \<rightharpoonup> frame_ref"
  emitted :: "event list"
  frame_heap :: "frame_ref \<Rightarrow> frame"
  frame_next :: frame_ref
  task_heap :: "task_ref \<Rightarrow> wait_task"
  task_next :: task_ref
  timers :: "timer_ref \<rightharpoonup> timer_action"
  timer_next :: timer_ref
  evaluations :: "(task_ref \<times> nat) list"   \<comment> \<open>predicate-poll evaluations issued: task, run\<close>
  disposed :: "handle list"
  sent :: "(string \<times> string) list"         \<comment> \<open>\<^verbatim>\<open>Page.navigate\<close> commands sent: frame id, url\<close>
  watchdogs :: "(string \<times> string \<times> string list) list"
     \<comment> \<open>\<^verbatim>\<open>NavigationWatchdog\<close>s constructed: navigation id, url, conditions\<close>
  watchdogs_disposed :: nat

definition upd_frame :: "frame_ref \<Rightarrow> (frame \<Rightarrow> frame) \<Rightarrow> world \<Rightarrow> world" where
  "upd_frame a g w = w\<lparr>frame_heap := (frame_heap w)(a := g (frame_heap w a))\<rparr>"

definition upd_task :: "task_ref \<Rightarrow> (wait_task \<Rightarrow> wait_task) \<Rightarrow> world \<Rightarrow> world" where
  "upd_task t g w = w\<lparr>task_heap := (task_heap w)(t := g (task_heap w t))\<rparr>"

definition emit :: "event \<Rightarrow> world \<Rightarrow> world" where
  "emit e w = w\<lparr>emitted := emitted w @ [e]\<rparr>"

definition clearTimeout :: "timer_ref option \<Rightarrow> world \<Rightarrow> world" where
  "clearTimeout i w = (case i of None \<Rightarrow> w | Some k \<Rightarrow> w\<lparr>timers := (timers w)(k := None)\<rparr>)"

definition setTimeout :: "timer_action \<Rightarrow> world \<Rightarrow> timer_ref \<times> world" where
  "setTimeout act w =
     (timer_next w, w\<lparr>timers := (timers w)(timer_next w \<mapsto> act), timer_next := Suc (timer_next w)\<rparr>)"

section \<open>WaitTask: settlement\<close>

definition WaitTask_cleanup :: "task_ref \<Rightarrow> world \<Rightarrow> world" where
  "WaitTask_cleanup t w =
     (let w1 = clearTimeout (t_timeoutTimer (task_heap w t)) w;
          w2 = upd_frame (t_frame (task_heap w1 t)) (\<lambda>f. f\<lparr>f_waitTasks := set_delete t (f_waitTasks f)\<rparr>) w1
      in upd_task t (\<lambda>k. k\<lparr>t_runningTask_null := True\<rparr>) w2)"

definition WaitTask_reject :: "task_ref \<Rightarrow> js_error \<Rightarrow> world \<Rightarrow> world" where
  "WaitTask_reject t e w = upd_task t (\<lambda>k. k\<lparr>t_promise := settle (Rejected e) (t_promise k)\<rparr>) w"

definition WaitTask_resolve :: "task_ref \<Rightarrow> handle \<Rightarrow> world \<Rightarrow> world" where
  "WaitTask_resolve t h w = upd_task t (\<lambda>k. k\<lparr>t_promise := settle (Resolved h) (t_promise k)\<rparr>) w"

definition WaitTask_terminate :: "task_ref \<Rightarrow> js_error \<Rightarrow> world \<Rightarrow> world" where
  "WaitTask_terminate t e w =
     (let w1 = upd_task t (\<lambda>k. k\<lparr>t_terminated := True\<rparr>) w;
          w2 = WaitTask_reject t e w1
      in WaitTask_cleanup t w2)"

section \<open>Frame\<close>

text \<open>The field values the constructor of \<^verbatim>\<open>Frame\<close> assigns.\<close>

definition Frame_init :: "string \<Rightarrow> frame" where
  "Frame_init frameId =
     \<lparr>f_frameId = frameId, f_parentFrame = None, f_url = '''', f_name = '''', f_children = [],
      f_isDetached = False, f_firedEvents = [], f_waitTasks = [], f_documentPromise = None,
      f_lastCommittedNavigationId = None, f_DOMContentLoadedFired = None, f_loadFired = None\<rparr>"

text \<open>\<^verbatim>\<open>new Frame(...)\<close>: a fresh object.\<close>

definition Frame_new :: "string \<Rightarrow> world \<Rightarrow> frame_ref \<times> world" where
  "Frame_new frameId w =
     (frame_next w,
      w\<lparr>frame_heap := (frame_heap w)(frame_next w := Frame_init frameId),
        frame_next := Suc (frame_next w)\<rparr>)"

definition detach_error :: js_error where
  "detach_error = Error ''waitForFunction failed: frame got detached.''"

text \<open>
  \<^verbatim>\<open>Frame._detach\<close>.  The loop runs over the tasks registered when it starts:
  \<^verbatim>\<open>terminate\<close> removes from a wait-task set only the task it is called on, so iterating the
  live \<^verbatim>\<open>Set\<close> visits exactly these.
\<close>

definition Frame_detach :: "frame_ref \<Rightarrow> world \<Rightarrow> unit completion \<times> world" where
  "Frame_detach a w =
     (case f_parentFrame (frame_heap w a) of
        None \<Rightarrow> (Throw (cannot_read ''_children'' ''null''), w)
      | Some p \<Rightarrow>
          (let w1 = upd_frame p (\<lambda>f. f\<lparr>f_children := set_delete a (f_children f)\<rparr>) w;
               w2 = upd_frame a (\<lambda>f. f\<lparr>f_parentFrame := None\<rparr>) w1;
               w3 = upd_frame a (\<lambda>f. f\<lparr>f_isDetached := True\<rparr>) w2
           in (Normal (),
               fold (\<lambda>t. WaitTask_terminate t detach_error) (f_waitTasks (frame_heap w3 a)) w3)))"

definition Frame_navigated :: "frame_ref \<Rightarrow> string \<Rightarrow> string \<Rightarrow> string option \<Rightarrow> world \<Rightarrow> world" where
  "Frame_navigated a url name navigationId w =
     upd_frame a (\<lambda>f. f\<lparr>f_url := url, f_name := name, f_lastCommittedNavigationId := navigationId,
                        f_documentPromise := None, f_firedEvents := []\<rparr>) w"

section \<open>FrameManager\<close>

text \<open>The state the constructor of \<^verbatim>\<open>FrameManager\<close> leaves; nothing is allocated yet.\<close>

definition FrameManager_new :: world where
  "FrameManager_new =
     \<lparr>m_mainFrame = None, m_frames = Map.empty, emitted = [],
      frame_heap = (\<lambda>_. Frame_init ''''), frame_next = 0,
      task_heap = (\<lambda>_. \<lparr>t_frame = 0, t_polling = PollString ''raf'', t_timeout = Num 0,
                         t_predicateBody = '''', t_args = [], t_runCount = 0, t_terminated = False,
                         t_promise = Pending, t_timeoutTimer = None, t_runningTask_null = False\<rparr>),
      task_next = 0, timers = Map.empty, timer_next = 0, evaluations = [], disposed = [],
      sent = [], watchdogs = [], watchdogs_disposed = 0\<rparr>"

definition frame_lookup :: "string \<Rightarrow> world \<Rightarrow> frame_ref option" where
  "frame_lookup frameId w = m_frames w frameId"

definition mainFrame :: "world \<Rightarrow> frame_ref option" where
  "mainFrame w = m_mainFrame w"

definition onNavigationCommitted ::
  "string \<Rightarrow> string \<Rightarrow> string \<Rightarrow> string option \<Rightarrow> world \<Rightarrow> unit completion \<times> world" where
  "onNavigationCommitted frameId url name navigationId w =
     (case m_frames w frameId of
        None \<Rightarrow> (Throw (cannot_read ''_navigated'' ''undefined''), w)
      | Some a \<Rightarrow>
          (let w1 = Frame_navigated a url name navigationId w;
               w2 = upd_frame a (\<lambda>f. f\<lparr>f_DOMContentLoadedFired := Some False\<rparr>) w1;
               w3 = upd_frame a (\<lambda>f. f\<lparr>f_loadFired := Some False\<rparr>) w2
           in (Normal (), emit (FrameNavigated a) w3)))"

definition onSameDocumentNavigation :: "string \<Rightarrow> string \<Rightarrow> world \<Rightarrow> unit completion \<times> world" where
  "onSameDocumentNavigation frameId url w =
     (case m_frames w frameId of
        None \<Rightarrow> (Throw (cannot_read ''_url'' ''undefined''), w)
      | Some a \<Rightarrow>
          (let w1 = upd_frame a (\<lambda>f. f\<lparr>f_url := url\<rparr>) w
           in (Normal (), emit (FrameNavigated a) w1)))"

definition onFrameAttached :: "string \<Rightarrow> string option \<Rightarrow> world \<Rightarrow> unit completion \<times> world" where
  "onFrameAttached frameId parentFrameId w =
     (let (a, w1) = Frame_new frameId w;
          parentFrame = (case parentFrameId of None \<Rightarrow> None | Some p \<Rightarrow> m_frames w1 p)
      in case parentFrame of
           Some p \<Rightarrow>
             (let w2 = upd_frame a (\<lambda>f. f\<lparr>f_parentFrame := Some p\<rparr>) w1;
                  w3 = upd_frame p (\<lambda>f. f\<lparr>f_children := set_add a (f_children f)\<rparr>) w2;
                  w4 = w3\<lparr>m_frames := (m_frames w3)(frameId \<mapsto> a)\<rparr>
              in (Normal (), emit (FrameAttached a) w4))
         | None \<Rightarrow>
             (case assert (m_mainFrame w1 = None) ''INTERNAL ERROR: re-attaching main frame!'' of
                Some e \<Rightarrow> (Throw e, w1)
              | None \<Rightarrow>
                  (let w2 = w1\<lparr>m_mainFrame := Some a\<rparr>;
                       w3 = w2\<lparr>m_frames := (m_frames w2)(frameId \<mapsto> a)\<rparr>
                   in (Normal (), emit (FrameAttached a) w3))))"

definition onFrameDetached :: "string \<Rightarrow> world \<Rightarrow> unit completion \<times> world" where
  "onFrameDetached frameId w =
     (let frame = m_frames w frameId;
          w1 = w\<lparr>m_frames := (m_frames w)(frameId := None)\<rparr>
      in case frame of
           None \<Rightarrow> (Throw (cannot_read ''_detach'' ''undefined''), w1)
         | Some a \<Rightarrow>
             (case Frame_detach a w1 of
                (Throw e, w2) \<Rightarrow> (Throw e, w2)
              | (Normal u, w2) \<Rightarrow> (Normal (), emit (FrameDetached a) w2)))"

definition onEventFired :: "string \<Rightarrow> string \<Rightarrow> world \<Rightarrow> unit completion \<times> world" where
  "onEventFired frameId name w =
     (case m_frames w frameId of
        None \<Rightarrow> (Throw (cannot_read ''_firedEvents'' ''undefined''), w)
      | Some a \<Rightarrow>
          (let w1 = upd_frame a (\<lambda>f. f\<lparr>f_firedEvents := set_add (toLowerCase name) (f_firedEvents f)\<rparr>) w
           in if Some a = m_mainFrame w1 then
                (if name = ''load'' then (Normal (), emit Load w1)
                 else if name = ''DOMContentLoaded'' then (Normal (), emit DOMContentLoaded w1)
                 else (Normal (), w1))
              else (Normal (), w1)))"

text \<open>
  \<^verbatim>\<open>frames()\<close>.  \<^verbatim>\<open>collect\<close> recurses through the heap, so the model carries fuel: \<open>None\<close>
  means that the fuel ran out before the traversal ended.  The accumulator is the local
  array \<^verbatim>\<open>frames\<close>.  With no main frame, \<^verbatim>\<open>collect(null)\<close> pushes \<^verbatim>\<open>null\<close> and then reads
  \<^verbatim>\<open>null._children\<close>.
\<close>

fun collect :: "nat \<Rightarrow> (frame_ref \<Rightarrow> frame) \<Rightarrow> frame_ref \<Rightarrow> frame_ref list \<Rightarrow> frame_ref list option"
  and collect_subframes ::
    "nat \<Rightarrow> (frame_ref \<Rightarrow> frame) \<Rightarrow> frame_ref list \<Rightarrow> frame_ref list \<Rightarrow> frame_ref list option"
where
  "collect 0 h a acc = None"
| "collect (Suc n) h a acc = collect_subframes n h (f_children (h a)) (acc @ [a])"
| "collect_subframes n h [] acc = Some acc"
| "collect_subframes n h (c # cs) acc =
     (case collect n h c acc of None \<Rightarrow> None | Some acc' \<Rightarrow> collect_subframes n h cs acc')"

definition frames :: "nat \<Rightarrow> world \<Rightarrow> frame_ref list completion option" where
  "frames fuel w =
     (case m_mainFrame w of
        None \<Rightarrow> Some (Throw (cannot_read ''_children'' ''null''))
      | Some a \<Rightarrow> map_option Normal (collect fuel (frame_heap w) a []))"

section \<open>Frame.goto\<close>

datatype wait_until = One string | Many "string list"

record goto_options =
  opt_timeout :: "jsnum option"
  opt_waitUntil :: "wait_until option"

definition normalizeWaitUntil :: "wait_until \<Rightarrow> js_error + string list" where
  "normalizeWaitUntil waitUntil =
     (let conditions = (case waitUntil of One c \<Rightarrow> [c] | Many cs \<Rightarrow> cs)
      in case find (\<lambda>c. c \<noteq> ''load'' \<and> c \<noteq> ''domcontentloaded'') conditions of
           Some c \<Rightarrow> Inl (Error (''Unknown waitUntil condition: '' @ c))
         | None \<Rightarrow> Inr conditions)"

type_synonym response = nat

datatype navigate_reply = Reply "string option" | SendFailed js_error

datatype goto_state =
    GotoResolved "response option"            \<comment> \<open>the promise of \<^verbatim>\<open>goto\<close> is fulfilled\<close>
  | GotoRejected js_error
  | AwaitNavigate jsnum "string list"         \<comment> \<open>suspended at \<^verbatim>\<open>await this._session.send\<close>\<close>
  | AwaitRace "timer_ref option"              \<comment> \<open>suspended at \<^verbatim>\<open>await Promise.race\<close>\<close>

text \<open>
  \<^verbatim>\<open>goto\<close> up to its first \<^verbatim>\<open>await\<close>.  \<open>navigationTimeout\<close> is what
  \<^verbatim>\<open>this._timeoutSettings.navigationTimeout()\<close> returns.
\<close>

definition Frame_goto :: "jsnum \<Rightarrow> frame_ref \<Rightarrow> string \<Rightarrow> goto_options \<Rightarrow> world \<Rightarrow> goto_state \<times> world" where
  "Frame_goto navigationTimeout a url options w =
     (let timeout = (case opt_timeout options of None \<Rightarrow> navigationTimeout | Some n \<Rightarrow> n);
          waitUntil = (case opt_waitUntil options of None \<Rightarrow> Many [''load''] | Some u \<Rightarrow> u)
      in case normalizeWaitUntil waitUntil of
           Inl e \<Rightarrow> (GotoRejected e, w)
         | Inr normalizedWaitUntil \<Rightarrow>
             (AwaitNavigate timeout normalizedWaitUntil,
              w\<lparr>sent := sent w @ [(f_frameId (frame_heap w a), url)]\<rparr>))"

text \<open>
  From the reply of \<^verbatim>\<open>Page.navigate\<close> to the race.  \<^verbatim>\<open>!navigationId\<close> holds when the
  identifier is absent or the empty string.  \<open>numstr\<close> is the conversion of a number to text
  that the string concatenation applies.
\<close>

definition Frame_goto_navigated ::
  "(jsnum \<Rightarrow> string) \<Rightarrow> frame_ref \<Rightarrow> string \<Rightarrow> jsnum \<Rightarrow> string list \<Rightarrow> navigate_reply \<Rightarrow> world
     \<Rightarrow> goto_state \<times> world" where
  "Frame_goto_navigated numstr a url timeout normalizedWaitUntil reply w =
     (case reply of
        SendFailed e \<Rightarrow> (GotoRejected e, w)
      | Reply None \<Rightarrow> (GotoResolved None, w)
      | Reply (Some navigationId) \<Rightarrow>
          if navigationId = [] then (GotoResolved None, w)
          else
            (let timeoutError = TimeoutError (''Navigation Timeout Exceeded: '' @ numstr timeout @ ''ms'');
                 (timeoutId, w1) =
                   (if num_truthy timeout
                    then (let (i, w') = setTimeout (ResolveTimeout timeoutError) w in (Some i, w'))
                    else (None, w));
                 w2 = w1\<lparr>watchdogs := watchdogs w1 @ [(navigationId, url, normalizedWaitUntil)]\<rparr>
             in (AwaitRace timeoutId, w2)))"

text \<open>After the race: \<open>error\<close> is what the race settled with, \<open>navigationResponse\<close> what
  the watchdog reports.\<close>

definition Frame_goto_raced ::
  "timer_ref option \<Rightarrow> js_error option \<Rightarrow> response option \<Rightarrow> world \<Rightarrow> goto_state \<times> world" where
  "Frame_goto_raced timeoutId error navigationResponse w =
     (let w1 = w\<lparr>watchdogs_disposed := Suc (watchdogs_disposed w)\<rparr>;
          w2 = clearTimeout timeoutId w1
      in case error of
           Some e \<Rightarrow> (GotoRejected e, w2)
         | None \<Rightarrow> (GotoResolved navigationResponse, w2))"

section \<open>WaitTask: construction and attempts\<close>

text \<open>
  Modelled from the spec: \<^verbatim>\<open>helper.isString\<close> and \<^verbatim>\<open>helper.isNumber\<close> are not part of
  the sources at hand; the polling strategy is a string, a number or "any other value", which
  are the three constructors of \<open>polling_value\<close>.
\<close>

definition check_polling :: "(jsnum \<Rightarrow> string) \<Rightarrow> polling_value \<Rightarrow> js_error option" where
  "check_polling numstr polling =
     (case polling of
        PollString s \<Rightarrow>
          assert (s = ''raf'' \<or> s = ''mutation'') (''Unknown polling option: '' @ s)
      | PollNumber n \<Rightarrow>
          assert (num_gt_zero n) (''Cannot poll with non-positive interval: '' @ numstr n)
      | PollOther txt \<Rightarrow> Some (Error (''Unknown polling options: '' @ txt)))"

datatype predicate_src = PredString string | PredFunction string

text \<open>\<^verbatim>\<open>rerun\<close> up to its first \<^verbatim>\<open>await\<close>: the attempt's number, and the evaluation issued.\<close>

definition WaitTask_rerun :: "task_ref \<Rightarrow> world \<Rightarrow> nat \<times> world" where
  "WaitTask_rerun t w =
     (let runCount = Suc (t_runCount (task_heap w t));
          w1 = upd_task t (\<lambda>k. k\<lparr>t_runCount := runCount\<rparr>) w
      in (runCount, w1\<lparr>evaluations := evaluations w1 @ [(t, runCount)]\<rparr>))"

definition WaitTask_new ::
  "(jsnum \<Rightarrow> string) \<Rightarrow> frame_ref \<Rightarrow> predicate_src \<Rightarrow> string \<Rightarrow> polling_value \<Rightarrow> jsnum \<Rightarrow> string list
     \<Rightarrow> world \<Rightarrow> task_ref completion \<times> world" where
  "WaitTask_new numstr a predicateBody title polling timeout args w =
     (case check_polling numstr polling of
        Some e \<Rightarrow> (Throw e, w)
      | None \<Rightarrow>
          (let t = task_next w;
               w1 = w\<lparr>task_heap := (task_heap w)(t :=
                        \<lparr>t_frame = a, t_polling = polling, t_timeout = timeout,
                         t_predicateBody =
                           (case predicateBody of
                              PredString s \<Rightarrow> ''return '' @ s
                            | PredFunction src \<Rightarrow> ''return ('' @ src @ '')(...args)''),
                         t_args = args, t_runCount = 0, t_terminated = False, t_promise = Pending,
                         t_timeoutTimer = None, t_runningTask_null = False\<rparr>),
                     task_next := Suc t\<rparr>;
               w2 = upd_frame a (\<lambda>f. f\<lparr>f_waitTasks := set_add t (f_waitTasks f)\<rparr>) w1;
               w3 = (if num_truthy timeout
                     then (let timeoutError = TimeoutError
                                 (''waiting for '' @ title @ '' failed: timeout '' @ numstr timeout @ ''ms exceeded'');
                               (i, w') = setTimeout (TerminateTask t timeoutError) w2
                           in upd_task t (\<lambda>k. k\<lparr>t_timeoutTimer := Some i\<rparr>) w')
                     else w2)
           in (Normal t, snd (WaitTask_rerun t w3))))"

datatype eval_outcome = Returned handle | Failed js_error

datatype check_outcome = CheckReturned bool | CheckFailed js_error

datatype rerun_state =
    Finished            \<comment> \<open>the call of \<^verbatim>\<open>rerun\<close> has returned\<close>
  | AwaitCheck handle   \<comment> \<open>suspended at \<^verbatim>\<open>await this._frame.evaluate(s => !s, success)\<close>\<close>

definition dispose :: "handle \<Rightarrow> world \<Rightarrow> world" where
  "dispose h w = w\<lparr>disposed := disposed w @ [h]\<rparr>"

text \<open>
  \<^verbatim>\<open>rerun\<close> from the moment \<^verbatim>\<open>evaluateHandle\<close> settles, for the attempt numbered
  \<open>runCount\<close>.  An evaluation that returns gives a handle (\<^verbatim>\<open>success\<close> is not null), one
  that throws leaves \<^verbatim>\<open>success\<close> null.  With an error the condition of line 715 is false
  without awaiting anything, so the segment runs through to the end of \<^verbatim>\<open>rerun\<close>.
\<close>

definition WaitTask_rerun_evaluated ::
  "task_ref \<Rightarrow> nat \<Rightarrow> eval_outcome \<Rightarrow> world \<Rightarrow> rerun_state \<times> world" where
  "WaitTask_rerun_evaluated t runCount outcome w =
     (if t_terminated (task_heap w t) \<or> runCount \<noteq> t_runCount (task_heap w t) then
        (case outcome of
           Returned success \<Rightarrow> (Finished, dispose success w)
         | Failed error \<Rightarrow> (Finished, w))
      else
        (case outcome of
           Returned success \<Rightarrow> (AwaitCheck success, w)
         | Failed error \<Rightarrow>
             if str_includes (message error) ''Execution context was destroyed''
             then (Finished, snd (WaitTask_rerun t w))
             else (Finished, WaitTask_cleanup t (WaitTask_reject t error w))))"

text \<open>\<^verbatim>\<open>rerun\<close> from the moment the check \<^verbatim>\<open>evaluate(s => !s, success).catch(e => true)\<close>
  settles.\<close>

definition WaitTask_rerun_checked :: "task_ref \<Rightarrow> handle \<Rightarrow> check_outcome \<Rightarrow> world \<Rightarrow> world" where
  "WaitTask_rerun_checked t success check w =
     (if (case check of CheckReturned falsy \<Rightarrow> falsy | CheckFailed e \<Rightarrow> True)
      then dispose success w
      else WaitTask_cleanup t (WaitTask_resolve t success w))"

text \<open>An armed timer fires: it is gone, and its callback runs.\<close>

definition fire_timer :: "timer_ref \<Rightarrow> world \<Rightarrow> world" where
  "fire_timer i w =
     (case timers w i of
        None \<Rightarrow> w
      | Some (TerminateTask t e) \<Rightarrow> WaitTask_terminate t e (w\<lparr>timers := (timers w)(i := None)\<rparr>)
      | Some (ResolveTimeout e) \<Rightarrow> w\<lparr>timers := (timers w)(i := None)\<rparr>)"

section \<open>Reachable states\<close>

text \<open>
  The worlds the driver can be in: the manager as constructed, and what any handler, any
  segment of an asynchronous operation and any timer make of a reachable world.  Handlers
  that throw are steps too, with the world they leave behind.  References handed to an
  operation are references of existing objects.
\<close>

inductive reachable :: "world \<Rightarrow> bool" where
  constructed: "reachable FrameManager_new"
| frameAttached: "reachable w \<Longrightarrow> reachable (snd (onFrameAttached frameId parentFrameId w))"
| frameDetached: "reachable w \<Longrightarrow> reachable (snd (onFrameDetached frameId w))"
| navigationCommitted:
    "reachable w \<Longrightarrow> reachable (snd (onNavigationCommitted frameId url name navigationId w))"
| sameDocumentNavigation:
    "reachable w \<Longrightarrow> reachable (snd (onSameDocumentNavigation frameId url w))"
| eventFired: "reachable w \<Longrightarrow> reachable (snd (onEventFired frameId name w))"
| waitTask:
    "reachable w \<Longrightarrow> a < frame_next w \<Longrightarrow>
     reachable (snd (WaitTask_new numstr a predicateBody title polling timeout args w))"
| evaluated:
    "reachable w \<Longrightarrow> t < task_next w \<Longrightarrow>
     reachable (snd (WaitTask_rerun_evaluated t runCount outcome w))"
| checked:
    "reachable w \<Longrightarrow> t < task_next w \<Longrightarrow> reachable (WaitTask_rerun_checked t success check w)"
| timer: "reachable w \<Longrightarrow> reachable (fire_timer i w)"
| goto:
    "reachable w \<Longrightarrow> a < frame_next w \<Longrightarrow>
     reachable (snd (Frame_goto navigationTimeout a url options w))"
| goto_navigated:
    "reachable w \<Longrightarrow> a < frame_next w \<Longrightarrow>
     reachable (snd (Frame_goto_navigated numstr a url timeout normalizedWaitUntil reply w))"
| goto_raced:
    "reachable w \<Longrightarrow> reachable (snd (Frame_goto_raced timeoutId error navigationResponse w))"

section \<open>The frame tree as a value\<close>

text \<open>
  What the specification calls the frame tree, read off the heap: a node is a frame, its
  subtrees are the trees of its children in insertion order.  \<open>preorder\<close>, \<open>descendants\<close>
  follow the specification's words and are what \<open>frames\<close> is compared with.
\<close>

datatype ftree = Node frame_ref "ftree list"

fun tree_at :: "(frame_ref \<Rightarrow> frame) \<Rightarrow> frame_ref \<Rightarrow> ftree \<Rightarrow> bool" where
  "tree_at h a (Node b ts) = (b = a \<and> list_all2 (tree_at h) (f_children (h a)) ts)"

fun preorder :: "ftree \<Rightarrow> frame_ref list" where
  "preorder (Node a ts) = a # concat (map preorder ts)"

fun descendants :: "ftree \<Rightarrow> nat" where
  "descendants (Node a ts) = sum_list (map (\<lambda>t. Suc (descendants t)) ts)"

fun height :: "ftree \<Rightarrow> nat" where
  "height (Node a ts) = Suc (foldr max (map height ts) 0)"

section \<open>Invariants\<close>

text \<open>The index holds existing frames under their own identifiers, and a frame of the
  index without a parent is the main frame.\<close>

definition index_inv :: "world \<Rightarrow> bool" where
  "index_inv w \<longleftrightarrow>
     (\<forall>i a. m_frames w i = Some a \<longrightarrow> a < frame_next w \<and> f_frameId (frame_heap w a) = i) \<and>
     (\<forall>i a. m_frames w i = Some a \<longrightarrow> f_parentFrame (frame_heap w a) = None \<longrightarrow> m_mainFrame w = Some a)"

text \<open>A child was created after its parent, and names it as its parent.\<close>

definition children_inv :: "world \<Rightarrow> bool" where
  "children_inv w \<longleftrightarrow>
     (\<forall>a c. c \<in> set (f_children (frame_heap w a)) \<longrightarrow>
        a < c \<and> c < frame_next w \<and> f_parentFrame (frame_heap w c) = Some a)"

text \<open>A task registered with a frame exists, belongs to that frame and is not settled.\<close>

definition tasks_inv :: "world \<Rightarrow> bool" where
  "tasks_inv w \<longleftrightarrow>
     (\<forall>a t. t \<in> set (f_waitTasks (frame_heap w a)) \<longrightarrow>
        t < task_next w \<and> t_frame (task_heap w t) = a \<and> t_promise (task_heap w t) = Pending)"

text \<open>Two worlds with the same frame topology: index, main frame, and every frame's
  identifier, parent and children.\<close>

definition same_tree :: "world \<Rightarrow> world \<Rightarrow> bool" where
  "same_tree w w' \<longleftrightarrow>
     m_frames w' = m_frames w \<and> m_mainFrame w' = m_mainFrame w \<and> frame_next w' = frame_next w \<and>
     (\<forall>b. f_frameId (frame_heap w' b) = f_frameId (frame_heap w b) \<and>
          f_parentFrame (frame_heap w' b) = f_parentFrame (frame_heap w b) \<and>
          f_children (frame_heap w' b) = f_children (frame_heap w b))"

text \<open>At most one frame of the index has no parent.\<close>

definition parentless_unique :: "world \<Rightarrow> bool" where
  "parentless_unique w \<longleftrightarrow>
     (\<forall>i j b c. m_frames w i = Some b \<longrightarrow> m_frames w j = Some c \<longrightarrow>
        f_parentFrame (frame_heap w b) = None \<longrightarrow> f_parentFrame (frame_heap w c) = None \<longrightarrow> b = c)"

section \<open>Example runs\<close>

text \<open>Worlds reached by short runs of events, on which the theorems below are instantiated.\<close>

definition ex_main :: world where
  "ex_main = snd (onFrameAttached ''main'' None FrameManager_new)"

definition ex_child :: world where
  "ex_child = snd (onFrameAttached ''child'' (Some ''main'') ex_main)"

definition ex_tree :: world where
  "ex_tree =
     snd (onFrameAttached ''grandchild'' (Some ''child'')
       (snd (onFrameAttached ''sibling'' (Some ''main'') ex_child)))"

definition ex_loaded :: world where
  "ex_loaded =
     snd (onEventFired ''main'' ''load''
       (snd (onNavigationCommitted ''main'' ''http://a.test/'' ''top'' (Some ''nav-1'') ex_main)))"

definition ex_numstr :: "jsnum \<Rightarrow> string" where
  "ex_numstr n = (if n = Num 50 then ''50'' else ''0'')"

definition ex_waiting :: world where
  "ex_waiting =
     snd (WaitTask_new ex_numstr 1 (PredString ''window.ready'') ''function'' (PollString ''raf'')
            (Num 50) []
       (snd (WaitTask_new ex_numstr 1 (PredFunction ''() => 1'') ''function'' (PollNumber (Num 250))
               (Num 0) [] ex_child)))"

text \<open>The timer of the second task fires while its first attempt is in flight.\<close>

definition ex_timed_out :: world where
  "ex_timed_out = fire_timer 0 ex_waiting"

definition ex_goto_options :: goto_options where
  "ex_goto_options = \<lparr>opt_timeout = None, opt_waitUntil = Some (One ''domcontentloaded'')\<rparr>"

text \<open>A wait on the main frame; a navigation commits and destroys the context of the first
  attempt; the second attempt finds a truthy value.\<close>

definition ex_error :: js_error where
  "ex_error = Error ''Protocol error (Runtime.callFunction): Execution context was destroyed.''"

definition ex_retry1 :: world where
  "ex_retry1 =
     snd (WaitTask_new ex_numstr 0 (PredString ''window.ready'') ''function'' (PollString ''mutation'')
            (Num 0) [] ex_main)"

definition ex_retry1' :: world where
  "ex_retry1' = snd (onNavigationCommitted ''main'' ''http://b.test/'' ''top'' (Some ''nav-2'') ex_retry1)"

definition ex_retry2 :: world where
  "ex_retry2 = snd (WaitTask_rerun_evaluated 0 1 (Failed ex_error) ex_retry1')"

definition ex_retry3 :: world where
  "ex_retry3 = snd (WaitTask_rerun_evaluated 0 2 (Returned 7) ex_retry2)"

definition ex_retry4 :: world where
  "ex_retry4 = WaitTask_rerun_checked 0 7 (CheckReturned False) ex_retry3"

section \<open>Unfolding\<close>

lemmas prim_defs = upd_frame_def upd_task_def emit_def clearTimeout_def setTimeout_def
  set_add_def set_delete_def settle_def assert_def cannot_read_def dispose_def

lemmas op_defs = WaitTask_cleanup_def WaitTask_reject_def WaitTask_resolve_def
  WaitTask_terminate_def Frame_init_def Frame_new_def detach_error_def Frame_detach_def
  Frame_navigated_def FrameManager_new_def onNavigationCommitted_def
  onSameDocumentNavigation_def onFrameAttached_def onFrameDetached_def onEventFired_def
  WaitTask_rerun_def WaitTask_new_def check_polling_def WaitTask_rerun_evaluated_def
  WaitTask_rerun_checked_def fire_timer_def toLowerCase_def

lemmas ex_defs = ex_main_def ex_child_def ex_tree_def ex_loaded_def ex_waiting_def ex_numstr_def
  ex_timed_out_def ex_goto_options_def

section \<open>Same-document navigation\<close>

text \<open>
  C9.  A same-document-navigation event for a frame of the index sets that frame's url to
  the event's url and leaves every other field of the frame as it was (fired events, last
  committed navigation identifier, name, children, cached document handle); no other frame
  changes, and a FrameNavigated notification for the frame is emitted.
\<close>

theorem onSameDocumentNavigation_sets_url_only:
  assumes "m_frames w frameId = Some a"
      and "onSameDocumentNavigation frameId url w = (r, w')"
  shows "r = Normal () \<and>
         frame_heap w' a = (frame_heap w a)\<lparr>f_url := url\<rparr> \<and>
         f_url (frame_heap w' a) = url \<and>
         f_firedEvents (frame_heap w' a) = f_firedEvents (frame_heap w a) \<and>
         f_lastCommittedNavigationId (frame_heap w' a) = f_lastCommittedNavigationId (frame_heap w a) \<and>
         f_name (frame_heap w' a) = f_name (frame_heap w a) \<and>
         f_children (frame_heap w' a) = f_children (frame_heap w a) \<and>
         f_documentPromise (frame_heap w' a) = f_documentPromise (frame_heap w a) \<and>
         (\<forall>b. b \<noteq> a \<longrightarrow> frame_heap w' b = frame_heap w b) \<and>
         emitted w' = emitted w @ [FrameNavigated a]"
  using assms by (auto simp: onSameDocumentNavigation_def upd_frame_def emit_def)

theorem onSameDocumentNavigation_sets_url_only_witness:
  "m_frames ex_loaded ''main'' = Some 0 \<and>
   fst (onSameDocumentNavigation ''main'' ''http://a.test/#top'' ex_loaded) = Normal () \<and>
   f_url (frame_heap ex_loaded 0) = ''http://a.test/'' \<and>
   f_url (frame_heap (snd (onSameDocumentNavigation ''main'' ''http://a.test/#top'' ex_loaded)) 0)
     = ''http://a.test/#top'' \<and>
   f_firedEvents (frame_heap (snd (onSameDocumentNavigation ''main'' ''http://a.test/#top'' ex_loaded)) 0)
     = [''load''] \<and>
   f_lastCommittedNavigationId
       (frame_heap (snd (onSameDocumentNavigation ''main'' ''http://a.test/#top'' ex_loaded)) 0)
     = Some ''nav-1''"
proof -
  have idx: "m_frames ex_loaded ''main'' = Some 0"
    by (simp add: ex_defs op_defs prim_defs)
  have before: "f_url (frame_heap ex_loaded 0) = ''http://a.test/'' \<and>
      f_firedEvents (frame_heap ex_loaded 0) = [''load''] \<and>
      f_lastCommittedNavigationId (frame_heap ex_loaded 0) = Some ''nav-1''"
    by (simp add: ex_defs op_defs prim_defs)
  show ?thesis
    using onSameDocumentNavigation_sets_url_only [OF idx surjective_pairing,
        of "''http://a.test/#top''"] idx before
    by simp
qed

section \<open>Detaching what cannot be detached\<close>

text \<open>
  C6, as the code has it.  A frame-detached event whose frame identifier is not in the index
  makes the handler throw the type error of \<^verbatim>\<open>frame._detach()\<close> on \<^verbatim>\<open>undefined\<close>; the
  world (frame tree, index, main-frame reference, notifications emitted) is unchanged.
\<close>

theorem onFrameDetached_unknown_throws:
  assumes "m_frames w frameId = None"
  shows "onFrameDetached frameId w = (Throw (cannot_read ''_detach'' ''undefined''), w)"
proof -
  have "(m_frames w)(frameId := None) = m_frames w"
    using assms by (simp add: fun_eq_iff)
  then show ?thesis
    using assms by (simp add: onFrameDetached_def)
qed

theorem onFrameDetached_unknown_throws_witness:
  "m_frames ex_main ''ghost'' = None \<and>
   onFrameDetached ''ghost'' ex_main = (Throw (cannot_read ''_detach'' ''undefined''), ex_main)"
proof -
  have h: "m_frames ex_main ''ghost'' = None"
    by (simp add: ex_defs op_defs prim_defs)
  show ?thesis
    using onFrameDetached_unknown_throws [OF h] h by simp
qed

text \<open>The claim as written (no exception is raised) fails on the freshly constructed
  manager.\<close>

theorem onFrameDetached_unknown_counterexample:
  "fst (onFrameDetached ''ghost'' FrameManager_new)
     = Throw (TypeError ''Cannot read property _detach of undefined'')"
  by (simp add: onFrameDetached_def FrameManager_new_def cannot_read_def)

text \<open>
  C10.  A frame-detached event for a frame of the index whose parent reference is null
  throws the type error of \<^verbatim>\<open>this._parentFrame._children\<close> inside \<^verbatim>\<open>_detach\<close>.  The
  detachment is not completed: the frame has left the index, but its detached flag, every
  frame and every wait task are as before, and no FrameDetached notification is emitted.
\<close>

theorem onFrameDetached_main_frame_throws:
  assumes "m_frames w frameId = Some a"
      and "f_parentFrame (frame_heap w a) = None"
      and "onFrameDetached frameId w = (r, w')"
  shows "r = Throw (cannot_read ''_children'' ''null'') \<and>
         w' = w\<lparr>m_frames := (m_frames w)(frameId := None)\<rparr> \<and>
         f_isDetached (frame_heap w' a) = f_isDetached (frame_heap w a) \<and>
         frame_heap w' = frame_heap w \<and> task_heap w' = task_heap w \<and>
         m_mainFrame w' = m_mainFrame w \<and> emitted w' = emitted w"
  using assms by (auto simp: onFrameDetached_def Frame_detach_def)

theorem onFrameDetached_main_frame_throws_witness:
  "m_frames ex_child ''main'' = Some 0 \<and> f_parentFrame (frame_heap ex_child 0) = None \<and>
   fst (onFrameDetached ''main'' ex_child) = Throw (cannot_read ''_children'' ''null'') \<and>
   f_isDetached (frame_heap (snd (onFrameDetached ''main'' ex_child)) 0) = False \<and>
   m_mainFrame (snd (onFrameDetached ''main'' ex_child)) = Some 0 \<and>
   emitted (snd (onFrameDetached ''main'' ex_child)) = [FrameAttached 0, FrameAttached 1]"
proof -
  have idx: "m_frames ex_child ''main'' = Some 0"
    by (simp add: ex_defs op_defs prim_defs)
  have par: "f_parentFrame (frame_heap ex_child 0) = None"
    by (simp add: ex_defs op_defs prim_defs)
  have before: "f_isDetached (frame_heap ex_child 0) = False \<and> m_mainFrame ex_child = Some 0 \<and>
      emitted ex_child = [FrameAttached 0, FrameAttached 1]"
    by (simp add: ex_defs op_defs prim_defs)
  show ?thesis
    using onFrameDetached_main_frame_throws [OF idx par surjective_pairing] idx par before
    by simp
qed

section \<open>Wait tasks: attempts\<close>

text \<open>
  C3.  When the evaluation of an attempt settles (with a value or with any error) and the
  task has been terminated, or the attempt's number is no longer the task's run counter,
  \<^verbatim>\<open>rerun\<close> returns at once: the task, its promise, the frames, the timers and the
  evaluations issued are as before; the only effect is that a returned handle is disposed.
\<close>

theorem rerun_stale_completion_discarded:
  assumes "t_terminated (task_heap w t) \<or> runCount \<noteq> t_runCount (task_heap w t)"
      and "WaitTask_rerun_evaluated t runCount outcome w = (k, w')"
  shows "k = Finished \<and>
         w' = (case outcome of Returned success \<Rightarrow> dispose success w | Failed error \<Rightarrow> w) \<and>
         task_heap w' = task_heap w \<and>
         t_promise (task_heap w' t) = t_promise (task_heap w t) \<and>
         frame_heap w' = frame_heap w \<and> timers w' = timers w \<and>
         evaluations w' = evaluations w"
  using assms
  by (auto simp: WaitTask_rerun_evaluated_def dispose_def split: eval_outcome.splits)

theorem rerun_stale_completion_discarded_witness:
  "t_terminated (task_heap ex_timed_out 1) \<and>
   t_runCount (task_heap ex_timed_out 1) = 1 \<and>
   fst (WaitTask_rerun_evaluated 1 1 (Returned 7) ex_timed_out) = Finished \<and>
   t_promise (task_heap (snd (WaitTask_rerun_evaluated 1 1 (Returned 7) ex_timed_out)) 1)
     = Rejected (TimeoutError ''waiting for function failed: timeout 50ms exceeded'') \<and>
   disposed (snd (WaitTask_rerun_evaluated 1 1 (Returned 7) ex_timed_out)) = [7]"
proof -
  have before: "t_terminated (task_heap ex_timed_out 1) \<and>
      t_runCount (task_heap ex_timed_out 1) = 1 \<and>
      t_promise (task_heap ex_timed_out 1)
        = Rejected (TimeoutError ''waiting for function failed: timeout 50ms exceeded'') \<and>
      disposed ex_timed_out = []"
    by (simp add: ex_defs op_defs prim_defs)
  then have stale: "t_terminated (task_heap ex_timed_out 1) \<or> 1 \<noteq> t_runCount (task_heap ex_timed_out 1)"
    by simp
  show ?thesis
    using rerun_stale_completion_discarded [OF stale surjective_pairing, of "Returned 7"] before
    by (simp add: dispose_def)
qed

text \<open>
  C2, as the code has it.  A task is constructed; its first attempt (number 1) fails with an
  error whose message contains \<open>Execution context was destroyed\<close>; the second attempt
  returns a handle, and the check \<^verbatim>\<open>evaluate(s => !s, success)\<close> comes back and reports the
  value truthy; and between these moments nothing touches the task (it is neither terminated
  nor superseded).  Then the failure settles nothing and issues attempt number 2, and the
  task ends resolved with that handle, its run counter being 2, and is no longer registered
  with its frame.
\<close>

theorem WaitTask_retries_after_context_destroyed:
  assumes new: "WaitTask_new numstr a body title polling timeout args w0 = (Normal t, w1)"
      and env1: "task_heap w1' t = task_heap w1 t"
      and destroyed: "str_includes (message e) ''Execution context was destroyed''"
      and first: "WaitTask_rerun_evaluated t 1 (Failed e) w1' = (k1, w2)"
      and env2: "task_heap w2' t = task_heap w2 t"
      and second: "WaitTask_rerun_evaluated t 2 (Returned h) w2' = (k2, w3)"
      and env3: "task_heap w3' t = task_heap w3 t"
      and truthy: "WaitTask_rerun_checked t h (CheckReturned False) w3' = w4"
  shows "t_runCount (task_heap w1 t) = 1 \<and>
         k1 = Finished \<and> t_promise (task_heap w2 t) = Pending \<and>
         evaluations w2 = evaluations w1' @ [(t, 2)] \<and>
         k2 = AwaitCheck h \<and>
         t_promise (task_heap w4 t) = Resolved h \<and>
         t_runCount (task_heap w4 t) = 2 \<and>
         t \<notin> set (f_waitTasks (frame_heap w4 a))"
proof -
  from new have ok: "check_polling numstr polling = None" and t: "t = task_next w0"
    by (auto simp: WaitTask_new_def Let_def split: option.splits)
  from new ok have task1:
    "t_runCount (task_heap w1 t) = 1 \<and> \<not> t_terminated (task_heap w1 t) \<and>
     t_promise (task_heap w1 t) = Pending \<and> t_frame (task_heap w1 t) = a"
    by (auto simp: WaitTask_new_def WaitTask_rerun_def Let_def upd_task_def upd_frame_def
        setTimeout_def split: if_splits prod.splits)
  with env1 have task1':
    "t_runCount (task_heap w1' t) = 1 \<and> \<not> t_terminated (task_heap w1' t) \<and>
     t_promise (task_heap w1' t) = Pending \<and> t_frame (task_heap w1' t) = a"
    by simp
  from first task1' destroyed have r1: "k1 = Finished" "w2 = snd (WaitTask_rerun t w1')"
    by (auto simp: WaitTask_rerun_evaluated_def)
  from r1 task1' have task2:
    "t_runCount (task_heap w2 t) = 2 \<and> \<not> t_terminated (task_heap w2 t) \<and>
     t_promise (task_heap w2 t) = Pending \<and> t_frame (task_heap w2 t) = a"
    and ev2: "evaluations w2 = evaluations w1' @ [(t, 2)]"
    by (auto simp: WaitTask_rerun_def Let_def upd_task_def)
  with env2 have task2':
    "t_runCount (task_heap w2' t) = 2 \<and> \<not> t_terminated (task_heap w2' t) \<and>
     t_promise (task_heap w2' t) = Pending \<and> t_frame (task_heap w2' t) = a"
    by simp
  from second task2' have r2: "k2 = AwaitCheck h" "w3 = w2'"
    by (auto simp: WaitTask_rerun_evaluated_def)
  with env3 task2' have task3':
    "t_runCount (task_heap w3' t) = 2 \<and> t_promise (task_heap w3' t) = Pending \<and>
     t_frame (task_heap w3' t) = a"
    by simp
  from truthy task3' have fin:
    "t_promise (task_heap w4 t) = Resolved h \<and> t_runCount (task_heap w4 t) = 2 \<and>
     t \<notin> set (f_waitTasks (frame_heap w4 a))"
    by (auto simp: WaitTask_rerun_checked_def WaitTask_cleanup_def WaitTask_resolve_def
        upd_task_def upd_frame_def clearTimeout_def settle_def set_delete_def Let_def
        split: option.splits)
  from task1 r1 task2 ev2 r2 fin show ?thesis by simp
qed

theorem WaitTask_retries_after_context_destroyed_witness:
  "str_includes (message ex_error) ''Execution context was destroyed'' \<and>
   fst (WaitTask_rerun_evaluated 0 1 (Failed ex_error) ex_retry1') = Finished \<and>
   t_promise (task_heap ex_retry2 0) = Pending \<and>
   evaluations ex_retry2 = [(0, 1), (0, 2)] \<and>
   fst (WaitTask_rerun_evaluated 0 2 (Returned 7) ex_retry2) = AwaitCheck 7 \<and>
   t_promise (task_heap ex_retry4 0) = Resolved 7 \<and>
   t_runCount (task_heap ex_retry4 0) = 2 \<and>
   f_waitTasks (frame_heap ex_retry1 0) = [0] \<and>
   0 \<notin> set (f_waitTasks (frame_heap ex_retry4 0))"
proof -
  have new: "WaitTask_new ex_numstr 0 (PredString ''window.ready'') ''function'' (PollString ''mutation'')
      (Num 0) [] ex_main = (Normal 0, ex_retry1)"
    by (simp add: ex_retry1_def prod_eq_iff WaitTask_new_def check_polling_def assert_def Let_def
        ex_main_def onFrameAttached_def Frame_new_def FrameManager_new_def emit_def)
  have env1: "task_heap ex_retry1' 0 = task_heap ex_retry1 0"
    by (simp add: ex_retry1'_def onNavigationCommitted_def Frame_navigated_def upd_frame_def
        emit_def Let_def split: option.splits)
  have destroyed: "str_includes (message ex_error) ''Execution context was destroyed''"
    by (simp add: ex_error_def)
  have ev1: "evaluations ex_retry1' = [(0, 1)]"
    by (simp add: ex_retry1'_def ex_retry1_def ex_defs op_defs prim_defs)
  have reg: "f_waitTasks (frame_heap ex_retry1 0) = [0]"
    by (simp add: ex_retry1_def ex_defs op_defs prim_defs)
  have first: "WaitTask_rerun_evaluated 0 1 (Failed ex_error) ex_retry1'
      = (fst (WaitTask_rerun_evaluated 0 1 (Failed ex_error) ex_retry1'), ex_retry2)"
    by (simp add: ex_retry2_def)
  have second: "WaitTask_rerun_evaluated 0 2 (Returned 7) ex_retry2
      = (fst (WaitTask_rerun_evaluated 0 2 (Returned 7) ex_retry2), ex_retry3)"
    by (simp add: ex_retry3_def)
  have truthy: "WaitTask_rerun_checked 0 7 (CheckReturned False) ex_retry3 = ex_retry4"
    by (simp add: ex_retry4_def)
  show ?thesis
    using WaitTask_retries_after_context_destroyed
      [OF new env1 destroyed first refl second refl truthy] destroyed ev1 reg
    by simp
qed

text \<open>
  The claim as written asks only that the second attempt return a truthy value.  When the
  check itself fails (\<^verbatim>\<open>.catch(e => true)\<close>: the context changed once more), the value counts
  as falsy: in the run above the handle is disposed and the task, neither terminated nor
  superseded, stays pending with run counter 2 and no third attempt.
\<close>

theorem WaitTask_check_fails_counterexample:
  "fst (WaitTask_rerun_evaluated 0 1 (Failed ex_error) ex_retry1') = Finished \<and>
   fst (WaitTask_rerun_evaluated 0 2 (Returned 7) ex_retry2) = AwaitCheck 7 \<and>
   \<not> t_terminated (task_heap ex_retry3 0) \<and>
   t_runCount (task_heap ex_retry3 0) = 2 \<and>
   t_promise (task_heap (WaitTask_rerun_checked 0 7 (CheckFailed ex_error) ex_retry3) 0) = Pending \<and>
   t_runCount (task_heap (WaitTask_rerun_checked 0 7 (CheckFailed ex_error) ex_retry3) 0) = 2 \<and>
   evaluations (WaitTask_rerun_checked 0 7 (CheckFailed ex_error) ex_retry3) = [(0, 1), (0, 2)] \<and>
   disposed (WaitTask_rerun_checked 0 7 (CheckFailed ex_error) ex_retry3) = [7]"
  by (simp add: ex_retry3_def ex_retry2_def ex_retry1'_def ex_retry1_def ex_error_def
      ex_defs op_defs prim_defs)

section \<open>Wait tasks: construction\<close>

text \<open>
  C8.  Constructing a wait task succeeds exactly when the polling value is the string
  \<open>raf\<close>, the string \<open>mutation\<close>, or a number greater than zero.  A number that is at most
  zero fails the assertion on the interval, a value that is neither a string nor a number
  throws the error on unknown polling options, and a construction that throws leaves the
  world as it was.
\<close>

theorem WaitTask_new_validates_polling:
  "((\<exists>t. fst (WaitTask_new numstr a body title polling timeout args w) = Normal t) \<longleftrightarrow>
      polling = PollString ''raf'' \<or> polling = PollString ''mutation'' \<or>
      (\<exists>n. polling = PollNumber n \<and> num_gt_zero n)) \<and>
   (num_le_zero n \<longrightarrow>
      WaitTask_new numstr a body title (PollNumber n) timeout args w
        = (Throw (Error (''Cannot poll with non-positive interval: '' @ numstr n)), w)) \<and>
   WaitTask_new numstr a body title (PollOther txt) timeout args w
     = (Throw (Error (''Unknown polling options: '' @ txt)), w) \<and>
   (\<forall>e. fst (WaitTask_new numstr a body title polling timeout args w) = Throw e \<longrightarrow>
      snd (WaitTask_new numstr a body title polling timeout args w) = w)"
proof -
  have le: "num_le_zero n \<Longrightarrow> \<not> num_gt_zero n"
    by (cases n) auto
  have iff: "check_polling numstr polling = None \<longleftrightarrow>
      polling = PollString ''raf'' \<or> polling = PollString ''mutation'' \<or>
      (\<exists>n. polling = PollNumber n \<and> num_gt_zero n)"
    by (cases polling) (auto simp: check_polling_def assert_def)
  have ok: "check_polling numstr polling = None \<Longrightarrow>
      fst (WaitTask_new numstr a body title polling timeout args w) = Normal (task_next w)"
    by (simp add: WaitTask_new_def Let_def)
  have bad: "check_polling numstr polling = Some e \<Longrightarrow>
      WaitTask_new numstr a body title polling timeout args w = (Throw e, w)" for e
    by (simp add: WaitTask_new_def)
  have c1: "(\<exists>t. fst (WaitTask_new numstr a body title polling timeout args w) = Normal t) \<longleftrightarrow>
      check_polling numstr polling = None"
    using ok bad by (cases "check_polling numstr polling") auto
  have c4: "\<forall>e. fst (WaitTask_new numstr a body title polling timeout args w) = Throw e \<longrightarrow>
      snd (WaitTask_new numstr a body title polling timeout args w) = w"
    using ok bad by (cases "check_polling numstr polling") auto
  show ?thesis
    using c1 c4 iff le
    by (simp add: WaitTask_new_def check_polling_def assert_def)
qed

theorem WaitTask_new_validates_polling_witness:
  "fst (WaitTask_new ex_numstr 0 (PredString ''window.ready'') ''function'' (PollNumber (Num 250))
          (Num 0) [] ex_main) = Normal 0 \<and>
   fst (WaitTask_new ex_numstr 0 (PredString ''window.ready'') ''function'' (PollString ''raf'')
          (Num 0) [] ex_main) = Normal 0 \<and>
   fst (WaitTask_new ex_numstr 0 (PredString ''window.ready'') ''function'' (PollString ''mutation'')
          (Num 0) [] ex_main) = Normal 0 \<and>
   num_le_zero (Num 0) \<and>
   WaitTask_new ex_numstr 0 (PredString ''window.ready'') ''function'' (PollNumber (Num 0))
       (Num 0) [] ex_main
     = (Throw (Error ''Cannot poll with non-positive interval: 0''), ex_main) \<and>
   WaitTask_new ex_numstr 0 (PredString ''window.ready'') ''function'' (PollOther ''undefined'')
       (Num 0) [] ex_main
     = (Throw (Error ''Unknown polling options: undefined''), ex_main)"
proof -
  have next0: "task_next ex_main = 0"
    by (simp add: ex_defs op_defs prim_defs)
  have ok: "fst (WaitTask_new ex_numstr 0 (PredString ''window.ready'') ''function'' p (Num 0) [] ex_main)
      = Normal 0"
    if "check_polling ex_numstr p = None" for p
    using that next0 by (simp add: WaitTask_new_def Let_def)
  have succeed:
    "fst (WaitTask_new ex_numstr 0 (PredString ''window.ready'') ''function'' (PollNumber (Num 250))
          (Num 0) [] ex_main) = Normal 0 \<and>
     fst (WaitTask_new ex_numstr 0 (PredString ''window.ready'') ''function'' (PollString ''raf'')
          (Num 0) [] ex_main) = Normal 0 \<and>
     fst (WaitTask_new ex_numstr 0 (PredString ''window.ready'') ''function'' (PollString ''mutation'')
          (Num 0) [] ex_main) = Normal 0"
    by (simp add: ok check_polling_def assert_def)
  show ?thesis
    using WaitTask_new_validates_polling [of ex_numstr 0 "PredString ''window.ready''" "''function''"
        "PollNumber (Num 250)" "Num 0" "[]" ex_main "Num 0" "''undefined''"] succeed
    by (simp add: ex_numstr_def)
qed

section \<open>goto\<close>

text \<open>
  C7.  A call of \<^verbatim>\<open>goto\<close> that gets as far as the navigate command (its \<^verbatim>\<open>waitUntil\<close> is
  valid) has constructed no watchdog and armed no timer by then; and when the reply carries
  no navigation identifier, in whatever world it arrives, \<^verbatim>\<open>goto\<close> resolves with no
  response and that world is unchanged: no watchdog is constructed and no timer is armed.
\<close>

theorem goto_without_navigationId_resolves:
  assumes "Frame_goto navigationTimeout a url options w = (AwaitNavigate timeout conditions, w1)"
  shows "watchdogs w1 = watchdogs w \<and> timers w1 = timers w \<and> timer_next w1 = timer_next w \<and>
         sent w1 = sent w @ [(f_frameId (frame_heap w a), url)] \<and>
         Frame_goto_navigated numstr a url timeout conditions (Reply None) w2
           = (GotoResolved None, w2)"
  using assms
  by (auto simp: Frame_goto_def Frame_goto_navigated_def Let_def
      split: sum.splits)

theorem goto_without_navigationId_resolves_witness:
  "Frame_goto (Num 30000) 0 ''http://a.test/'' ex_goto_options ex_main
     = (AwaitNavigate (Num 30000) [''domcontentloaded''],
        ex_main\<lparr>sent := [(''main'', ''http://a.test/'')]\<rparr>) \<and>
   watchdogs (ex_main\<lparr>sent := [(''main'', ''http://a.test/'')]\<rparr>) = [] \<and>
   timer_next (ex_main\<lparr>sent := [(''main'', ''http://a.test/'')]\<rparr>) = 0 \<and>
   Frame_goto_navigated ex_numstr 0 ''http://a.test/'' (Num 30000) [''domcontentloaded'']
       (Reply None) (ex_main\<lparr>sent := [(''main'', ''http://a.test/'')]\<rparr>)
     = (GotoResolved None, ex_main\<lparr>sent := [(''main'', ''http://a.test/'')]\<rparr>)"
proof -
  have call: "Frame_goto (Num 30000) 0 ''http://a.test/'' ex_goto_options ex_main
     = (AwaitNavigate (Num 30000) [''domcontentloaded''],
        ex_main\<lparr>sent := [(''main'', ''http://a.test/'')]\<rparr>)"
    by (simp add: Frame_goto_def normalizeWaitUntil_def ex_defs op_defs prim_defs)
  have before: "watchdogs ex_main = []" "timer_next ex_main = 0"
    by (simp_all add: ex_defs op_defs prim_defs)
  note th = goto_without_navigationId_resolves [OF call, of ex_numstr
      "ex_main\<lparr>sent := [(''main'', ''http://a.test/'')]\<rparr>"]
  have wd: "watchdogs (ex_main\<lparr>sent := [(''main'', ''http://a.test/'')]\<rparr>) = []"
    using th [THEN conjunct1] before by simp
  have tn: "timer_next (ex_main\<lparr>sent := [(''main'', ''http://a.test/'')]\<rparr>) = 0"
    using th [THEN conjunct2, THEN conjunct2, THEN conjunct1] before by simp
  have res: "Frame_goto_navigated ex_numstr 0 ''http://a.test/'' (Num 30000) [''domcontentloaded'']
       (Reply None) (ex_main\<lparr>sent := [(''main'', ''http://a.test/'')]\<rparr>)
     = (GotoResolved None, ex_main\<lparr>sent := [(''main'', ''http://a.test/'')]\<rparr>)"
    by (rule th [THEN conjunct2, THEN conjunct2, THEN conjunct2, THEN conjunct2])
  show ?thesis
    by (intro conjI call wd tn res)
qed

section \<open>Reachable worlds keep the invariants\<close>

lemma same_tree_refl: "same_tree w w"
  by (simp add: same_tree_def)

lemma same_tree_trans: "same_tree w w1 \<Longrightarrow> same_tree w1 w2 \<Longrightarrow> same_tree w w2"
  by (simp add: same_tree_def)

lemma same_tree_terminate: "same_tree w (WaitTask_terminate t e w)"
  by (simp add: same_tree_def WaitTask_terminate_def WaitTask_cleanup_def WaitTask_reject_def
      upd_task_def upd_frame_def clearTimeout_def Let_def split: option.splits)

lemma same_tree_fold_terminate: "same_tree w (fold (\<lambda>t. WaitTask_terminate t e) ts w)"
proof (induction ts arbitrary: w)
  case Nil
  show ?case by (simp add: same_tree_refl)
next
  case (Cons t ts)
  show ?case
    using same_tree_trans [OF same_tree_terminate Cons.IH] by simp
qed

lemma same_tree_rerun: "same_tree w (snd (WaitTask_rerun t w))"
  by (simp add: same_tree_def WaitTask_rerun_def upd_task_def Let_def)

lemma same_tree_new: "same_tree w (snd (WaitTask_new numstr a body title polling timeout args w))"
  by (simp add: same_tree_def WaitTask_new_def WaitTask_rerun_def upd_task_def upd_frame_def
      setTimeout_def Let_def split: option.splits)

lemma same_tree_evaluated: "same_tree w (snd (WaitTask_rerun_evaluated t rc outcome w))"
  by (simp add: same_tree_def WaitTask_rerun_evaluated_def WaitTask_rerun_def
      WaitTask_cleanup_def WaitTask_reject_def dispose_def
      upd_task_def upd_frame_def clearTimeout_def Let_def split: option.splits eval_outcome.splits)

lemma same_tree_checked: "same_tree w (WaitTask_rerun_checked t h check w)"
  by (simp add: same_tree_def WaitTask_rerun_checked_def
      WaitTask_cleanup_def WaitTask_resolve_def dispose_def
      upd_task_def upd_frame_def clearTimeout_def Let_def split: option.splits check_outcome.splits)

lemma same_tree_fire_timer: "same_tree w (fire_timer i w)"
proof (cases "timers w i")
  case None
  then show ?thesis by (simp add: fire_timer_def same_tree_refl)
next
  case (Some act)
  show ?thesis
  proof (cases act)
    case (TerminateTask t e)
    have "same_tree w (w\<lparr>timers := (timers w)(i := None)\<rparr>)"
      by (simp add: same_tree_def)
    from same_tree_trans [OF this same_tree_terminate] Some TerminateTask show ?thesis
      by (simp add: fire_timer_def)
  next
    case (ResolveTimeout e)
    with Some show ?thesis by (simp add: fire_timer_def same_tree_def)
  qed
qed

lemma same_tree_goto: "same_tree w (snd (Frame_goto nt a url options w))"
  by (simp add: same_tree_def Frame_goto_def Let_def split: sum.splits)

lemma same_tree_goto_navigated: "same_tree w (snd (Frame_goto_navigated numstr a url timeout conds reply w))"
  by (simp add: same_tree_def Frame_goto_navigated_def setTimeout_def Let_def split: navigate_reply.splits option.splits)

lemma same_tree_goto_raced: "same_tree w (snd (Frame_goto_raced i err resp w))"
  by (simp add: same_tree_def Frame_goto_raced_def clearTimeout_def Let_def split: option.splits)

lemma same_tree_committed: "same_tree w (snd (onNavigationCommitted frameId url name nav w))"
  by (simp add: same_tree_def onNavigationCommitted_def Frame_navigated_def upd_frame_def emit_def
      Let_def split: option.splits)

lemma same_tree_sameDocument: "same_tree w (snd (onSameDocumentNavigation frameId url w))"
  by (simp add: same_tree_def onSameDocumentNavigation_def upd_frame_def emit_def
      Let_def split: option.splits)

lemma same_tree_eventFired: "same_tree w (snd (onEventFired frameId name w))"
  by (simp add: same_tree_def onEventFired_def upd_frame_def emit_def
      Let_def split: option.splits)

lemma index_inv_same_tree: "index_inv w \<Longrightarrow> same_tree w w' \<Longrightarrow> index_inv w'"
  by (simp add: index_inv_def same_tree_def)

lemma children_inv_same_tree: "children_inv w \<Longrightarrow> same_tree w w' \<Longrightarrow> children_inv w'"
  by (simp add: children_inv_def same_tree_def)

lemma index_inv_attached:
  assumes "index_inv w"
  shows "index_inv (snd (onFrameAttached frameId parentFrameId w))"
proof (cases "case parentFrameId of None \<Rightarrow> None | Some p \<Rightarrow> m_frames w p")
  case None
  then show ?thesis
    using assms
    by (auto simp: index_inv_def onFrameAttached_def Frame_new_def Frame_init_def assert_def emit_def
        Let_def less_Suc_eq split: option.splits)
next
  case (Some p)
  then have "p < frame_next w"
    using assms by (auto simp: index_inv_def split: option.splits)
  with Some show ?thesis
    using assms
    by (auto simp: index_inv_def onFrameAttached_def Frame_new_def Frame_init_def upd_frame_def
        emit_def Let_def less_Suc_eq split: option.splits)
qed

lemma children_inv_attached:
  assumes "children_inv w" "index_inv w"
  shows "children_inv (snd (onFrameAttached frameId parentFrameId w))"
proof (cases "case parentFrameId of None \<Rightarrow> None | Some p \<Rightarrow> m_frames w p")
  case None
  then show ?thesis
    using assms(1)
    by (auto simp: children_inv_def onFrameAttached_def Frame_new_def Frame_init_def assert_def emit_def
        Let_def less_Suc_eq split: option.splits)
next
  case (Some p)
  then have "p < frame_next w"
    using assms(2) by (auto simp: index_inv_def split: option.splits)
  with Some show ?thesis
    using assms(1)
    by (auto simp: children_inv_def onFrameAttached_def Frame_new_def Frame_init_def upd_frame_def
        set_add_def emit_def Let_def less_Suc_eq split: option.splits if_splits)
qed

text \<open>The world after the three field updates of _detach, before the loop.\<close>

lemma Frame_detach_parent:
  assumes "f_parentFrame (frame_heap w a) = Some p"
  shows "Frame_detach a w =
    (Normal (),
     fold (\<lambda>t. WaitTask_terminate t detach_error) (f_waitTasks (frame_heap w a))
       (w\<lparr>frame_heap := (frame_heap w)
            (p := (frame_heap w p)\<lparr>f_children := set_delete a (f_children (frame_heap w p))\<rparr>,
             a := (if a = p then (frame_heap w p)\<lparr>f_children := set_delete a (f_children (frame_heap w p))\<rparr>
                   else frame_heap w a)\<lparr>f_parentFrame := None, f_isDetached := True\<rparr>)\<rparr>))"
  using assms by (simp add: Frame_detach_def upd_frame_def Let_def)

lemma index_inv_detached:
  assumes "index_inv w"
  shows "index_inv (snd (onFrameDetached frameId w))"
proof (cases "m_frames w frameId")
  case None
  then show ?thesis
    using assms by (auto simp: onFrameDetached_def index_inv_def)
next
  case (Some a)
  let ?w1 = "w\<lparr>m_frames := (m_frames w)(frameId := None)\<rparr>"
  have id: "f_frameId (frame_heap w a) = frameId"
    using assms Some by (simp add: index_inv_def)
  show ?thesis
  proof (cases "f_parentFrame (frame_heap w a)")
    case None
    with Some have "snd (onFrameDetached frameId w) = ?w1"
      by (simp add: onFrameDetached_def Frame_detach_def)
    moreover have "index_inv ?w1"
      using assms unfolding index_inv_def by simp
    ultimately show ?thesis by simp
  next
    case (Some p)
    let ?w3 = "?w1\<lparr>frame_heap := (frame_heap w)
            (p := (frame_heap w p)\<lparr>f_children := set_delete a (f_children (frame_heap w p))\<rparr>,
             a := (if a = p then (frame_heap w p)\<lparr>f_children := set_delete a (f_children (frame_heap w p))\<rparr>
                   else frame_heap w a)\<lparr>f_parentFrame := None, f_isDetached := True\<rparr>)\<rparr>"
    have inv3: "index_inv ?w3"
      using assms id by (auto simp: index_inv_def)
    have "snd (onFrameDetached frameId w)
        = emit (FrameDetached a)
            (fold (\<lambda>t. WaitTask_terminate t detach_error) (f_waitTasks (frame_heap w a)) ?w3)"
      using \<open>m_frames w frameId = Some a\<close> Some Frame_detach_parent [of ?w1 a p]
      by (simp add: onFrameDetached_def)
    moreover have "same_tree ?w3 (emit (FrameDetached a)
            (fold (\<lambda>t. WaitTask_terminate t detach_error) (f_waitTasks (frame_heap w a)) ?w3))"
      using same_tree_fold_terminate [of ?w3 detach_error "f_waitTasks (frame_heap w a)"]
      by (simp add: same_tree_def emit_def)
    ultimately show ?thesis
      using index_inv_same_tree [OF inv3] by simp
  qed
qed

lemma children_inv_detached:
  assumes "children_inv w"
  shows "children_inv (snd (onFrameDetached frameId w))"
proof (cases "m_frames w frameId")
  case None
  then show ?thesis
    using assms by (auto simp: onFrameDetached_def children_inv_def)
next
  case (Some a)
  let ?w1 = "w\<lparr>m_frames := (m_frames w)(frameId := None)\<rparr>"
  show ?thesis
  proof (cases "f_parentFrame (frame_heap w a)")
    case None
    with Some show ?thesis
      using assms by (auto simp: onFrameDetached_def Frame_detach_def children_inv_def)
  next
    case (Some p)
    let ?w3 = "?w1\<lparr>frame_heap := (frame_heap w)
            (p := (frame_heap w p)\<lparr>f_children := set_delete a (f_children (frame_heap w p))\<rparr>,
             a := (if a = p then (frame_heap w p)\<lparr>f_children := set_delete a (f_children (frame_heap w p))\<rparr>
                   else frame_heap w a)\<lparr>f_parentFrame := None, f_isDetached := True\<rparr>)\<rparr>"
    have inv3: "children_inv ?w3"
      using assms Some by (auto simp: children_inv_def set_delete_def)
    have "snd (onFrameDetached frameId w)
        = emit (FrameDetached a)
            (fold (\<lambda>t. WaitTask_terminate t detach_error) (f_waitTasks (frame_heap w a)) ?w3)"
      using \<open>m_frames w frameId = Some a\<close> Some Frame_detach_parent [of ?w1 a p]
      by (simp add: onFrameDetached_def)
    moreover have "same_tree ?w3 (emit (FrameDetached a)
            (fold (\<lambda>t. WaitTask_terminate t detach_error) (f_waitTasks (frame_heap w a)) ?w3))"
      using same_tree_fold_terminate [of ?w3 detach_error "f_waitTasks (frame_heap w a)"]
      by (simp add: same_tree_def emit_def)
    ultimately show ?thesis
      using children_inv_same_tree [OF inv3] by simp
  qed
qed

lemma cleanup_after_update:
  assumes "tasks_inv w" and "\<And>k. t_frame (g k) = t_frame k"
  shows "tasks_inv (WaitTask_cleanup t (upd_task t g w))"
  using assms
  by (auto simp: tasks_inv_def WaitTask_cleanup_def upd_task_def upd_frame_def clearTimeout_def
      set_delete_def Let_def split: option.splits)

lemma tasks_inv_terminate: "tasks_inv w \<Longrightarrow> tasks_inv (WaitTask_terminate t e w)"
proof -
  assume inv: "tasks_inv w"
  have "WaitTask_terminate t e w
      = WaitTask_cleanup t (upd_task t
          (\<lambda>k. k\<lparr>t_terminated := True, t_promise := settle (Rejected e) (t_promise k)\<rparr>) w)"
    by (simp add: WaitTask_terminate_def WaitTask_reject_def upd_task_def Let_def)
  then show ?thesis
    using cleanup_after_update [OF inv, of _ t] by simp
qed

lemma tasks_inv_fold_terminate:
  "tasks_inv w \<Longrightarrow> tasks_inv (fold (\<lambda>t. WaitTask_terminate t e) ts w)"
  by (induction ts arbitrary: w) (simp_all add: tasks_inv_terminate)

lemma tasks_inv_rerun: "tasks_inv w \<Longrightarrow> tasks_inv (snd (WaitTask_rerun t w))"
  by (simp add: tasks_inv_def WaitTask_rerun_def upd_task_def Let_def)

lemma tasks_inv_new:
  assumes "tasks_inv w"
  shows "tasks_inv (snd (WaitTask_new numstr a body title polling timeout args w))"
proof (cases "check_polling numstr polling")
  case (Some e)
  then show ?thesis using assms by (simp add: WaitTask_new_def)
next
  case None
  have fresh: "task_next w \<notin> set (f_waitTasks (frame_heap w b))" for b
    using assms by (auto simp: tasks_inv_def)
  show ?thesis
    using assms None fresh
    by (auto simp: tasks_inv_def WaitTask_new_def WaitTask_rerun_def upd_task_def upd_frame_def
        setTimeout_def set_add_def Let_def less_Suc_eq split: if_splits)
qed

lemma tasks_inv_evaluated:
  assumes "tasks_inv w"
  shows "tasks_inv (snd (WaitTask_rerun_evaluated t rc outcome w))"
proof -
  have rej: "WaitTask_cleanup t (WaitTask_reject t e w)
      = WaitTask_cleanup t (upd_task t (\<lambda>k. k\<lparr>t_promise := settle (Rejected e) (t_promise k)\<rparr>) w)" for e
    by (simp add: WaitTask_reject_def)
  have "tasks_inv (dispose h w)" for h
    using assms by (simp add: tasks_inv_def dispose_def)
  moreover have "tasks_inv (WaitTask_cleanup t (WaitTask_reject t e w))" for e
    unfolding rej using cleanup_after_update [OF assms, of _ t] by simp
  ultimately show ?thesis
    using assms tasks_inv_rerun [OF assms, of t]
    by (simp add: WaitTask_rerun_evaluated_def split: eval_outcome.splits)
qed

lemma tasks_inv_checked:
  assumes "tasks_inv w"
  shows "tasks_inv (WaitTask_rerun_checked t h check w)"
proof -
  have "tasks_inv (dispose h w)"
    using assms by (simp add: tasks_inv_def dispose_def)
  moreover have "tasks_inv (WaitTask_cleanup t (WaitTask_resolve t h w))"
    unfolding WaitTask_resolve_def using cleanup_after_update [OF assms, of _ t] by simp
  ultimately show ?thesis
    by (simp add: WaitTask_rerun_checked_def)
qed

lemma tasks_inv_fire_timer:
  assumes "tasks_inv w"
  shows "tasks_inv (fire_timer i w)"
proof -
  have "tasks_inv (w\<lparr>timers := (timers w)(i := None)\<rparr>)"
    using assms by (simp add: tasks_inv_def)
  then show ?thesis
    using assms tasks_inv_terminate
    by (simp add: fire_timer_def split: option.splits timer_action.splits)
qed

text \<open>Steps that leave the tasks alone and do not add to any registration.\<close>

lemma tasks_inv_frames_only:
  assumes "tasks_inv w"
      and "task_heap w' = task_heap w" and "task_next w' = task_next w"
      and "\<And>b. set (f_waitTasks (frame_heap w' b)) \<subseteq> set (f_waitTasks (frame_heap w b))"
  shows "tasks_inv w'"
  using assms unfolding tasks_inv_def by (metis subsetD)

lemma tasks_inv_attached:
  assumes "tasks_inv w"
  shows "tasks_inv (snd (onFrameAttached frameId parentFrameId w))"
  by (rule tasks_inv_frames_only [OF assms])
    (auto simp: onFrameAttached_def Frame_new_def Frame_init_def upd_frame_def assert_def emit_def
      Let_def split: option.splits)

lemma tasks_inv_committed:
  assumes "tasks_inv w"
  shows "tasks_inv (snd (onNavigationCommitted frameId url name nav w))"
  by (rule tasks_inv_frames_only [OF assms])
    (auto simp: onNavigationCommitted_def Frame_navigated_def upd_frame_def emit_def
      Let_def split: option.splits)

lemma tasks_inv_sameDocument:
  assumes "tasks_inv w"
  shows "tasks_inv (snd (onSameDocumentNavigation frameId url w))"
  by (rule tasks_inv_frames_only [OF assms])
    (auto simp: onSameDocumentNavigation_def upd_frame_def emit_def Let_def split: option.splits)

lemma tasks_inv_eventFired:
  assumes "tasks_inv w"
  shows "tasks_inv (snd (onEventFired frameId name w))"
  by (rule tasks_inv_frames_only [OF assms])
    (auto simp: onEventFired_def upd_frame_def emit_def Let_def split: option.splits)

lemma tasks_inv_goto:
  assumes "tasks_inv w"
  shows "tasks_inv (snd (Frame_goto nt a url options w))"
  by (rule tasks_inv_frames_only [OF assms]) (auto simp: Frame_goto_def Let_def split: sum.splits)

lemma tasks_inv_goto_navigated:
  assumes "tasks_inv w"
  shows "tasks_inv (snd (Frame_goto_navigated numstr a url timeout conds reply w))"
  by (rule tasks_inv_frames_only [OF assms])
    (auto simp: Frame_goto_navigated_def setTimeout_def Let_def split: navigate_reply.splits option.splits)

lemma tasks_inv_goto_raced:
  assumes "tasks_inv w"
  shows "tasks_inv (snd (Frame_goto_raced i err resp w))"
  by (rule tasks_inv_frames_only [OF assms])
    (auto simp: Frame_goto_raced_def clearTimeout_def Let_def split: option.splits)

lemma tasks_inv_detached:
  assumes "tasks_inv w"
  shows "tasks_inv (snd (onFrameDetached frameId w))"
proof (cases "m_frames w frameId")
  case None
  then show ?thesis
    using assms by (simp add: onFrameDetached_def tasks_inv_def)
next
  case (Some a)
  let ?w1 = "w\<lparr>m_frames := (m_frames w)(frameId := None)\<rparr>"
  show ?thesis
  proof (cases "f_parentFrame (frame_heap w a)")
    case None
    with Some show ?thesis
      using assms by (simp add: onFrameDetached_def Frame_detach_def tasks_inv_def)
  next
    case (Some p)
    let ?w3 = "?w1\<lparr>frame_heap := (frame_heap w)
            (p := (frame_heap w p)\<lparr>f_children := set_delete a (f_children (frame_heap w p))\<rparr>,
             a := (if a = p then (frame_heap w p)\<lparr>f_children := set_delete a (f_children (frame_heap w p))\<rparr>
                   else frame_heap w a)\<lparr>f_parentFrame := None, f_isDetached := True\<rparr>)\<rparr>"
    have inv3: "tasks_inv ?w3"
      using assms by (rule tasks_inv_frames_only) auto
    have "snd (onFrameDetached frameId w)
        = emit (FrameDetached a)
            (fold (\<lambda>t. WaitTask_terminate t detach_error) (f_waitTasks (frame_heap w a)) ?w3)"
      using \<open>m_frames w frameId = Some a\<close> Some Frame_detach_parent [of ?w1 a p]
      by (simp add: onFrameDetached_def)
    moreover have "tasks_inv (emit (FrameDetached a) v)" if "tasks_inv v" for v
      using that by (simp add: tasks_inv_def emit_def)
    ultimately show ?thesis
      using tasks_inv_fold_terminate [OF inv3] by simp
  qed
qed

lemma reachable_invariants:
  "reachable w \<Longrightarrow> index_inv w \<and> children_inv w \<and> tasks_inv w"
proof (induction rule: reachable.induct)
  case constructed
  show ?case
    by (simp add: index_inv_def children_inv_def tasks_inv_def FrameManager_new_def Frame_init_def)
next
  case (frameAttached w frameId parentFrameId)
  then show ?case
    by (simp add: index_inv_attached children_inv_attached tasks_inv_attached)
next
  case (frameDetached w frameId)
  then show ?case
    by (simp add: index_inv_detached children_inv_detached tasks_inv_detached)
next
  case (navigationCommitted w frameId url name navigationId)
  then show ?case
    using same_tree_committed [of w frameId url name navigationId]
    by (auto intro: index_inv_same_tree children_inv_same_tree tasks_inv_committed)
next
  case (sameDocumentNavigation w frameId url)
  then show ?case
    using same_tree_sameDocument [of w frameId url]
    by (auto intro: index_inv_same_tree children_inv_same_tree tasks_inv_sameDocument)
next
  case (eventFired w frameId name)
  then show ?case
    using same_tree_eventFired [of w frameId name]
    by (auto intro: index_inv_same_tree children_inv_same_tree tasks_inv_eventFired)
next
  case (waitTask w a numstr predicateBody title polling timeout args)
  then show ?case
    using same_tree_new [of w numstr a predicateBody title polling timeout args]
    by (auto intro: index_inv_same_tree children_inv_same_tree tasks_inv_new)
next
  case (evaluated w t runCount outcome)
  then show ?case
    using same_tree_evaluated [of w t runCount outcome]
    by (auto intro: index_inv_same_tree children_inv_same_tree tasks_inv_evaluated)
next
  case (checked w t success check)
  then show ?case
    using same_tree_checked [of w t success check]
    by (auto intro: index_inv_same_tree children_inv_same_tree tasks_inv_checked)
next
  case (timer w i)
  then show ?case
    using same_tree_fire_timer [of w i]
    by (auto intro: index_inv_same_tree children_inv_same_tree tasks_inv_fire_timer)
next
  case (goto w a navigationTimeout url options)
  then show ?case
    using same_tree_goto [of w navigationTimeout a url options]
    by (auto intro: index_inv_same_tree children_inv_same_tree tasks_inv_goto)
next
  case (goto_navigated w a numstr url timeout normalizedWaitUntil reply)
  then show ?case
    using same_tree_goto_navigated [of w numstr a url timeout normalizedWaitUntil reply]
    by (auto intro: index_inv_same_tree children_inv_same_tree tasks_inv_goto_navigated)
next
  case (goto_raced w timeoutId error navigationResponse)
  then show ?case
    using same_tree_goto_raced [of w timeoutId error navigationResponse]
    by (auto intro: index_inv_same_tree children_inv_same_tree tasks_inv_goto_raced)
qed

lemma settle_idem: "settle r (settle r p) = settle r p"
  by (cases p; cases r) (simp_all add: settle_def)

text \<open>What terminate changes.\<close>

lemma terminate_effect:
  "task_heap (WaitTask_terminate t e w)
     = (task_heap w)(t := (task_heap w t)\<lparr>t_terminated := True,
          t_promise := settle (Rejected e) (t_promise (task_heap w t)),
          t_runningTask_null := True\<rparr>)"
  "frame_heap (WaitTask_terminate t e w)
     = (frame_heap w)(t_frame (task_heap w t) :=
          (frame_heap w (t_frame (task_heap w t)))
            \<lparr>f_waitTasks := set_delete t (f_waitTasks (frame_heap w (t_frame (task_heap w t))))\<rparr>)"
  "emitted (WaitTask_terminate t e w) = emitted w"
  "m_frames (WaitTask_terminate t e w) = m_frames w"
  "m_mainFrame (WaitTask_terminate t e w) = m_mainFrame w"
  by (simp_all add: WaitTask_terminate_def WaitTask_cleanup_def WaitTask_reject_def
      upd_task_def upd_frame_def clearTimeout_def Let_def split: option.splits)

lemma fold_terminate_effect:
  assumes "\<forall>t\<in>set ts. t_frame (task_heap w t) = a"
  shows "(\<forall>t. task_heap (fold (\<lambda>t. WaitTask_terminate t e) ts w) t
            = (if t \<in> set ts
               then (task_heap w t)\<lparr>t_terminated := True,
                      t_promise := settle (Rejected e) (t_promise (task_heap w t)),
                      t_runningTask_null := True\<rparr>
               else task_heap w t)) \<and>
         (\<forall>b. frame_heap (fold (\<lambda>t. WaitTask_terminate t e) ts w) b
            = (frame_heap w b)\<lparr>f_waitTasks :=
                 (if b = a then filter (\<lambda>x. x \<notin> set ts) (f_waitTasks (frame_heap w b))
                  else f_waitTasks (frame_heap w b))\<rparr>) \<and>
         emitted (fold (\<lambda>t. WaitTask_terminate t e) ts w) = emitted w \<and>
         m_frames (fold (\<lambda>t. WaitTask_terminate t e) ts w) = m_frames w \<and>
         m_mainFrame (fold (\<lambda>t. WaitTask_terminate t e) ts w) = m_mainFrame w"
  using assms
proof (induction ts arbitrary: w)
  case Nil
  show ?case by simp
next
  case (Cons t ts)
  let ?w1 = "WaitTask_terminate t e w"
  have fr: "t_frame (task_heap w t) = a"
    using Cons.prems by simp
  have "\<forall>u\<in>set ts. t_frame (task_heap ?w1 u) = a"
    using Cons.prems by (simp add: terminate_effect)
  note IH = Cons.IH [OF this]
  show ?case
    using IH fr
    by (auto simp: terminate_effect settle_idem set_delete_def conj_commute)
qed

section \<open>The example worlds are reachable\<close>

lemma reachable_ex_main: "reachable ex_main"
  unfolding ex_main_def by (rule reachable.frameAttached [OF reachable.constructed])

lemma reachable_ex_child: "reachable ex_child"
  unfolding ex_child_def by (rule reachable.frameAttached [OF reachable_ex_main])

lemma reachable_ex_tree: "reachable ex_tree"
  unfolding ex_tree_def
  by (rule reachable.frameAttached [OF reachable.frameAttached [OF reachable_ex_child]])

lemma reachable_ex_waiting: "reachable ex_waiting"
proof -
  have n1: "(1::nat) < frame_next ex_child"
    by (simp add: ex_defs op_defs prim_defs)
  note r1 = reachable.waitTask [OF reachable_ex_child n1, of ex_numstr "PredFunction ''() => 1''"
      "''function''" "PollNumber (Num 250)" "Num 0" "[]"]
  have n2: "(1::nat) < frame_next (snd (WaitTask_new ex_numstr 1 (PredFunction ''() => 1'') ''function''
      (PollNumber (Num 250)) (Num 0) [] ex_child))"
    using same_tree_new [of ex_child ex_numstr 1 "PredFunction ''() => 1''" "''function''"
        "PollNumber (Num 250)" "Num 0" "[]"] n1
    by (simp add: same_tree_def)
  show ?thesis
    unfolding ex_waiting_def by (rule reachable.waitTask [OF r1 n2])
qed

section \<open>Detaching a child frame\<close>

text \<open>
  C5.  In a reachable world, a frame-detached event for a frame of the index that has a parent
  completes normally: every wait task registered with the frame is terminated and its promise
  is rejected with the detachment error, none remains registered, the frame is in the index
  under no identifier, it is no child of its former parent, its parent reference is null and
  its detached flag is set; a FrameDetached notification for it is emitted.
\<close>

theorem onFrameDetached_child_frame:
  assumes reach: "reachable w"
      and idx: "m_frames w frameId = Some a"
      and par: "f_parentFrame (frame_heap w a) = Some p"
      and run: "onFrameDetached frameId w = (r, w')"
  shows "r = Normal () \<and>
         (\<forall>t\<in>set (f_waitTasks (frame_heap w a)).
            t_terminated (task_heap w' t) \<and> t_promise (task_heap w' t) = Rejected detach_error) \<and>
         f_waitTasks (frame_heap w' a) = [] \<and>
         m_frames w' frameId = None \<and> (\<forall>i. m_frames w' i \<noteq> Some a) \<and>
         a \<notin> set (f_children (frame_heap w' p)) \<and>
         f_parentFrame (frame_heap w' a) = None \<and>
         f_isDetached (frame_heap w' a) \<and>
         emitted w' = emitted w @ [FrameDetached a]"
proof -
  let ?ts = "f_waitTasks (frame_heap w a)"
  let ?w1 = "w\<lparr>m_frames := (m_frames w)(frameId := None)\<rparr>"
  let ?w3 = "?w1\<lparr>frame_heap := (frame_heap w)
          (p := (frame_heap w p)\<lparr>f_children := set_delete a (f_children (frame_heap w p))\<rparr>,
           a := (if a = p then (frame_heap w p)\<lparr>f_children := set_delete a (f_children (frame_heap w p))\<rparr>
                 else frame_heap w a)\<lparr>f_parentFrame := None, f_isDetached := True\<rparr>)\<rparr>"
  let ?W = "fold (\<lambda>t. WaitTask_terminate t detach_error) ?ts ?w3"
  from reachable_invariants [OF reach] have inv: "index_inv w" "tasks_inv w"
    by simp_all
  have "fst (onFrameDetached frameId w) = Normal ()"
       "snd (onFrameDetached frameId w) = emit (FrameDetached a) ?W"
    using idx par Frame_detach_parent [of ?w1 a p]
    by (simp_all add: onFrameDetached_def)
  with run have res: "r = Normal ()" "w' = emit (FrameDetached a) ?W"
    by simp_all
  have owner: "\<forall>t\<in>set ?ts. t_frame (task_heap ?w3 t) = a"
    using inv(2) by (simp add: tasks_inv_def)
  have pending: "\<forall>t\<in>set ?ts. t_promise (task_heap w t) = Pending"
    using inv(2) by (simp add: tasks_inv_def)
  note eff = fold_terminate_effect [OF owner, of detach_error]
  have th: "\<forall>t. task_heap ?W t
      = (if t \<in> set ?ts
         then (task_heap w t)\<lparr>t_terminated := True,
                t_promise := settle (Rejected detach_error) (t_promise (task_heap w t)),
                t_runningTask_null := True\<rparr>
         else task_heap w t)"
    using eff [THEN conjunct1] by simp
  have fh: "\<forall>b. frame_heap ?W b
      = (frame_heap ?w3 b)\<lparr>f_waitTasks :=
           (if b = a then filter (\<lambda>x. x \<notin> set ?ts) (f_waitTasks (frame_heap ?w3 b))
            else f_waitTasks (frame_heap ?w3 b))\<rparr>"
    by (rule eff [THEN conjunct2, THEN conjunct1])
  have em: "emitted ?W = emitted w"
    using eff [THEN conjunct2, THEN conjunct2, THEN conjunct1] by simp
  have mf: "m_frames ?W = (m_frames w)(frameId := None)"
    using eff [THEN conjunct2, THEN conjunct2, THEN conjunct2, THEN conjunct1] by simp
  have tasks: "\<forall>t\<in>set ?ts.
      t_terminated (task_heap ?W t) \<and> t_promise (task_heap ?W t) = Rejected detach_error"
    using th pending by (simp add: settle_def)
  have reg: "f_waitTasks (frame_heap ?w3 a) = ?ts"
    by simp
  have fa: "f_waitTasks (frame_heap ?W a) = [] \<and> f_parentFrame (frame_heap ?W a) = None \<and>
      f_isDetached (frame_heap ?W a)"
    using fh [THEN spec, of a] reg by simp
  have "a \<notin> set (f_children (frame_heap ?w3 p))"
    by (simp add: set_delete_def)
  then have unlinked: "a \<notin> set (f_children (frame_heap ?W p))"
    using fh [THEN spec, of p] by simp
  have only: "\<forall>i. m_frames ?W i \<noteq> Some a"
  proof
    fix i
    have "m_frames w i = Some a \<Longrightarrow> i = frameId"
      using inv(1) idx unfolding index_inv_def by metis
    then show "m_frames ?W i \<noteq> Some a"
      unfolding mf by auto
  qed
  have gone: "m_frames ?W frameId = None"
    unfolding mf by simp
  show ?thesis
    unfolding res using tasks fa unlinked only gone em
    by (simp add: emit_def)
qed

theorem onFrameDetached_child_frame_witness:
  "m_frames ex_waiting ''child'' = Some 1 \<and>
   f_parentFrame (frame_heap ex_waiting 1) = Some 0 \<and>
   f_waitTasks (frame_heap ex_waiting 1) = [0, 1] \<and>
   fst (onFrameDetached ''child'' ex_waiting) = Normal () \<and>
   t_terminated (task_heap (snd (onFrameDetached ''child'' ex_waiting)) 0) \<and>
   t_promise (task_heap (snd (onFrameDetached ''child'' ex_waiting)) 0) = Rejected detach_error \<and>
   t_terminated (task_heap (snd (onFrameDetached ''child'' ex_waiting)) 1) \<and>
   t_promise (task_heap (snd (onFrameDetached ''child'' ex_waiting)) 1) = Rejected detach_error \<and>
   f_waitTasks (frame_heap (snd (onFrameDetached ''child'' ex_waiting)) 1) = [] \<and>
   m_frames (snd (onFrameDetached ''child'' ex_waiting)) ''child'' = None \<and>
   1 \<notin> set (f_children (frame_heap (snd (onFrameDetached ''child'' ex_waiting)) 0)) \<and>
   f_parentFrame (frame_heap (snd (onFrameDetached ''child'' ex_waiting)) 1) = None \<and>
   f_isDetached (frame_heap (snd (onFrameDetached ''child'' ex_waiting)) 1)"
proof -
  have idx: "m_frames ex_waiting ''child'' = Some 1"
    by (simp add: ex_defs op_defs prim_defs)
  have par: "f_parentFrame (frame_heap ex_waiting 1) = Some 0"
    by (simp add: ex_defs op_defs prim_defs)
  have reg: "f_waitTasks (frame_heap ex_waiting 1) = [0, 1]"
    by (simp add: ex_defs op_defs prim_defs)
  show ?thesis
    using onFrameDetached_child_frame [OF reachable_ex_waiting idx par surjective_pairing]
      idx par reg
    by simp
qed

section \<open>Attaching a frame without a parent\<close>

lemma collect_members:
  "collect n h a acc = Some r \<Longrightarrow>
     set r \<subseteq> set acc \<union> {a} \<union> {c. \<exists>b. c \<in> set (f_children (h b))}"
  "collect_subframes n h cs acc = Some r \<Longrightarrow>
     set r \<subseteq> set acc \<union> set cs \<union> {c. \<exists>b. c \<in> set (f_children (h b))}"
proof (induction n h a acc and n h cs acc arbitrary: r and r rule: collect_collect_subframes.induct)
  case (1 h a acc)
  then show ?case by simp
next
  case (2 n h a acc)
  from 2 show ?case by fastforce
next
  case (3 n h acc)
  then show ?case by simp
next
  case (4 n h c cs acc)
  from "4.prems" obtain acc' where c: "collect n h c acc = Some acc'"
    and s: "collect_subframes n h cs acc' = Some r"
    by (auto split: option.splits)
  from "4.IH"(1) [OF c] "4.IH"(2) [OF c s] show ?case
    by auto
qed

lemma parentless_unique_inv: "index_inv w \<Longrightarrow> parentless_unique w"
  unfolding index_inv_def parentless_unique_def
  by (metis option.inject)

lemma frames_parentless_is_main:
  assumes "children_inv w" and "frames n w = Some (Normal fs)" and "b \<in> set fs"
      and "f_parentFrame (frame_heap w b) = None"
  shows "m_mainFrame w = Some b"
proof -
  from assms(2) obtain a where main: "m_mainFrame w = Some a"
    and c: "collect n (frame_heap w) a [] = Some fs"
    by (auto simp: frames_def split: option.splits)
  from collect_members(1) [OF c] assms(3)
  have "b = a \<or> (\<exists>q. b \<in> set (f_children (frame_heap w q)))"
    by auto
  moreover have "\<not> (\<exists>q. b \<in> set (f_children (frame_heap w q)))"
    using assms(1,4) by (auto simp: children_inv_def)
  ultimately show ?thesis
    using main by simp
qed

text \<open>
  C1.  In a reachable world, a frame-attached event whose parent identifier resolves to no
  frame of the index installs the new frame as main frame and indexes it when there is no
  main frame; when there is one, the handler throws the re-attachment error and the index,
  the main frame, the notifications and every existing frame are unchanged.  Before and
  after, at most one frame of the index has no parent, and a frame listed by \<^verbatim>\<open>frames()\<close>
  that has no parent is the main frame.
\<close>

theorem onFrameAttached_without_parent:
  assumes reach: "reachable w"
      and unresolved: "(case parentFrameId of None \<Rightarrow> None | Some p \<Rightarrow> m_frames w p) = None"
      and run: "onFrameAttached frameId parentFrameId w = (r, w')"
  shows "(m_mainFrame w = None \<longrightarrow>
            r = Normal () \<and> m_mainFrame w' = Some (frame_next w) \<and>
            m_frames w' = (m_frames w)(frameId \<mapsto> frame_next w) \<and>
            frame_heap w' = (frame_heap w)(frame_next w := Frame_init frameId) \<and>
            emitted w' = emitted w @ [FrameAttached (frame_next w)]) \<and>
         (m_mainFrame w \<noteq> None \<longrightarrow>
            r = Throw (Error ''INTERNAL ERROR: re-attaching main frame!'') \<and>
            m_mainFrame w' = m_mainFrame w \<and> m_frames w' = m_frames w \<and>
            emitted w' = emitted w \<and>
            (\<forall>b. b < frame_next w \<longrightarrow> frame_heap w' b = frame_heap w b)) \<and>
         parentless_unique w \<and> parentless_unique w' \<and>
         (\<forall>n fs b. frames n w' = Some (Normal fs) \<longrightarrow> b \<in> set fs \<longrightarrow>
            f_parentFrame (frame_heap w' b) = None \<longrightarrow> m_mainFrame w' = Some b)"
proof -
  have w': "w' = snd (onFrameAttached frameId parentFrameId w)"
    using run by simp
  then have reach': "reachable w'"
    using reachable.frameAttached [OF reach] by simp
  have installs: "m_mainFrame w = None \<longrightarrow>
            r = Normal () \<and> m_mainFrame w' = Some (frame_next w) \<and>
            m_frames w' = (m_frames w)(frameId \<mapsto> frame_next w) \<and>
            frame_heap w' = (frame_heap w)(frame_next w := Frame_init frameId) \<and>
            emitted w' = emitted w @ [FrameAttached (frame_next w)]"
    using run unresolved
    by (auto simp: onFrameAttached_def Frame_new_def assert_def emit_def Let_def
        split: option.splits)
  have fails: "m_mainFrame w \<noteq> None \<longrightarrow>
            r = Throw (Error ''INTERNAL ERROR: re-attaching main frame!'') \<and>
            m_mainFrame w' = m_mainFrame w \<and> m_frames w' = m_frames w \<and>
            emitted w' = emitted w \<and>
            (\<forall>b. b < frame_next w \<longrightarrow> frame_heap w' b = frame_heap w b)"
    using run unresolved
    by (auto simp: onFrameAttached_def Frame_new_def assert_def emit_def Let_def
        split: option.splits)
  have u: "parentless_unique w" "parentless_unique w'"
    using reachable_invariants [OF reach] reachable_invariants [OF reach']
    by (simp_all add: parentless_unique_inv)
  have t: "\<forall>n fs b. frames n w' = Some (Normal fs) \<longrightarrow> b \<in> set fs \<longrightarrow>
            f_parentFrame (frame_heap w' b) = None \<longrightarrow> m_mainFrame w' = Some b"
    using reachable_invariants [OF reach'] frames_parentless_is_main [of w'] by blast
  from installs fails u t show ?thesis
    by blast
qed

theorem onFrameAttached_without_parent_witness:
  "m_mainFrame FrameManager_new = None \<and>
   fst (onFrameAttached ''main'' None FrameManager_new) = Normal () \<and>
   m_mainFrame ex_main = Some 0 \<and>
   m_frames ex_main = (m_frames FrameManager_new)(''main'' \<mapsto> 0) \<and>
   m_mainFrame ex_child = Some 0 \<and>
   fst (onFrameAttached ''popup'' None ex_child)
     = Throw (Error ''INTERNAL ERROR: re-attaching main frame!'') \<and>
   m_mainFrame (snd (onFrameAttached ''popup'' None ex_child)) = Some 0 \<and>
   m_frames (snd (onFrameAttached ''popup'' None ex_child)) = m_frames ex_child \<and>
   emitted (snd (onFrameAttached ''popup'' None ex_child)) = emitted ex_child \<and>
   parentless_unique ex_child \<and>
   parentless_unique (snd (onFrameAttached ''popup'' None ex_child))"
proof -
  have none: "m_mainFrame FrameManager_new = None" "frame_next FrameManager_new = 0"
    by (simp_all add: FrameManager_new_def)
  have some: "m_mainFrame ex_child = Some 0"
    by (simp add: ex_defs op_defs prim_defs)
  have un: "(case None of None \<Rightarrow> None | Some p \<Rightarrow> m_frames v p) = None" for v :: world
    by simp
  have first: "onFrameAttached ''main'' None FrameManager_new
      = (fst (onFrameAttached ''main'' None FrameManager_new), ex_main)"
    by (simp add: ex_main_def)
  show ?thesis
    using onFrameAttached_without_parent [OF reachable.constructed un first]
      onFrameAttached_without_parent [OF reachable_ex_child un surjective_pairing, of "''popup''"]
      none some
    by simp
qed

section \<open>frames() and the frame tree\<close>

lemma list_all2_exists:
  "(\<And>x. x \<in> set xs \<Longrightarrow> \<exists>y. P x y) \<Longrightarrow> \<exists>ys. list_all2 P xs ys"
proof (induction xs)
  case Nil
  show ?case by simp
next
  case (Cons x xs)
  then obtain y ys where "P x y" "list_all2 P xs ys"
    by (meson list.set_intros)
  then have "list_all2 P (x # xs) (y # ys)" by simp
  then show ?case by blast
qed

text \<open>In a world where children are younger than their parents, every frame heads a tree.\<close>

lemma tree_exists:
  assumes "children_inv w"
  shows "\<exists>t. tree_at (frame_heap w) a t"
proof (induction a rule: measure_induct_rule [where f = "\<lambda>a. frame_next w - a"])
  case (less a)
  have "\<exists>t. tree_at (frame_heap w) c t" if "c \<in> set (f_children (frame_heap w a))" for c
  proof -
    from assms that have "a < c" "c < frame_next w"
      by (auto simp: children_inv_def)
    then have "frame_next w - c < frame_next w - a" by arith
    then show ?thesis by (rule less.IH)
  qed
  then obtain ts where "list_all2 (tree_at (frame_heap w)) (f_children (frame_heap w a)) ts"
    using list_all2_exists [of "f_children (frame_heap w a)" "tree_at (frame_heap w)"] by blast
  then have "tree_at (frame_heap w) a (Node a ts)" by simp
  then show ?case by blast
qed

lemma height_le_foldr: "t \<in> set ts \<Longrightarrow> height t \<le> foldr max (map height ts) 0"
  by (induction ts) (auto simp: max_def)

lemma collect_tree:
  "tree_at h a t \<Longrightarrow> height t \<le> n \<Longrightarrow> collect n h a acc = Some (acc @ preorder t)"
proof (induction t arbitrary: a n acc)
  case (Node b ts)
  from Node.prems(1) have b: "b = a" and kids: "list_all2 (tree_at h) (f_children (h a)) ts"
    by simp_all
  from Node.prems(2) obtain m where n: "n = Suc m" and m: "foldr max (map height ts) 0 \<le> m"
    by (cases n) auto
  have low: "height t \<le> m" if "t \<in> set ts" for t
    using height_le_foldr [OF that] m by simp
  have sub: "collect_subframes m h cs acc' = Some (acc' @ concat (map preorder us))"
    if "list_all2 (tree_at h) cs us" "set us \<subseteq> set ts" for cs us acc'
    using that
  proof (induction cs us arbitrary: acc' rule: list_all2_induct)
    case Nil
    show ?case by simp
  next
    case (Cons c cs u us)
    from Cons.prems have u: "u \<in> set ts" and rest: "set us \<subseteq> set ts"
      by simp_all
    have "collect m h c acc' = Some (acc' @ preorder u)"
      using Node.IH [OF u Cons.hyps(1) low [OF u]] .
    then show ?case
      using Cons.IH [OF rest] by simp
  qed
  show ?case
    using sub [OF kids subset_refl, of "acc @ [a]"] b n by simp
qed

lemma length_preorder: "length (preorder t) = 1 + descendants t"
proof (induction t)
  case (Node a ts)
  have "length (concat (map preorder ts)) = sum_list (map (\<lambda>t. Suc (descendants t)) ts)"
    using Node.IH by (induction ts) simp_all
  then show ?case by simp
qed

lemma list_all2_unique:
  "list_all2 P xs ys \<Longrightarrow> list_all2 P xs ys' \<Longrightarrow>
   (\<forall>y\<in>set ys. \<forall>x y'. P x y \<longrightarrow> P x y' \<longrightarrow> y = y') \<Longrightarrow> ys = ys'"
proof (induction xs arbitrary: ys ys')
  case Nil
  then show ?case by simp
next
  case (Cons x xs)
  from Cons.prems(1) obtain y zs where ys: "ys = y # zs" and xy: "P x y" and r: "list_all2 P xs zs"
    by (auto simp: list_all2_Cons1)
  from Cons.prems(2) obtain y' zs' where ys': "ys' = y' # zs'" and xy': "P x y'"
    and r': "list_all2 P xs zs'"
    by (auto simp: list_all2_Cons1)
  from Cons.prems(3) ys xy xy' have "y = y'"
    by auto
  moreover from Cons.prems(3) ys have "zs = zs'"
    by (intro Cons.IH [OF r r']) simp
  ultimately show ?case
    using ys ys' by simp
qed

lemma tree_at_unique: "tree_at h a t \<Longrightarrow> tree_at h a t' \<Longrightarrow> t = t'"
proof (induction t arbitrary: a t')
  case (Node b ts)
  obtain b' ts' where t': "t' = Node b' ts'" by (cases t')
  from Node.prems t' have eq: "b = a" "b' = a"
    and l: "list_all2 (tree_at h) (f_children (h a)) ts"
    and l': "list_all2 (tree_at h) (f_children (h a)) ts'"
    by simp_all
  have "\<forall>y\<in>set ts. \<forall>x y'. tree_at h x y \<longrightarrow> tree_at h x y' \<longrightarrow> y = y'"
    using Node.IH by blast
  with l l' have "ts = ts'"
    by (rule list_all2_unique)
  with eq t' show ?case
    by simp
qed

text \<open>
  C4, as the code has it.  In a reachable world with a main frame, the frames below the main
  frame form exactly one tree, and \<^verbatim>\<open>frames()\<close> returns its pre-order traversal (root
  first, depth first, children in insertion order) whenever the fuel is at least the height
  of the tree; the length of the result is one plus the number of descendants of the main
  frame.  In a reachable world without a main frame, \<^verbatim>\<open>frames()\<close> throws the type error
  of reading \<^verbatim>\<open>_children\<close> of \<^verbatim>\<open>null\<close>.
\<close>

theorem frames_is_preorder:
  assumes "reachable w"
  shows "(m_mainFrame w = None \<longrightarrow>
            (\<forall>n. frames n w = Some (Throw (cannot_read ''_children'' ''null'')))) \<and>
         (\<forall>a. m_mainFrame w = Some a \<longrightarrow>
            (\<exists>t. tree_at (frame_heap w) a t \<and>
                 (\<forall>t'. tree_at (frame_heap w) a t' \<longrightarrow> t' = t) \<and>
                 (\<forall>n. height t \<le> n \<longrightarrow> frames n w = Some (Normal (preorder t))) \<and>
                 length (preorder t) = 1 + descendants t))"
proof -
  have inv: "children_inv w"
    using reachable_invariants [OF assms] by simp
  have "\<exists>t. tree_at (frame_heap w) a t \<and>
            (\<forall>t'. tree_at (frame_heap w) a t' \<longrightarrow> t' = t) \<and>
            (\<forall>n. height t \<le> n \<longrightarrow> frames n w = Some (Normal (preorder t))) \<and>
            length (preorder t) = 1 + descendants t"
    if main: "m_mainFrame w = Some a" for a
  proof -
    from tree_exists [OF inv] obtain t where t: "tree_at (frame_heap w) a t"
      by blast
    have "frames n w = Some (Normal (preorder t))" if "height t \<le> n" for n
      using collect_tree [OF t that, of "[]"] main by (simp add: frames_def)
    moreover have "\<forall>t'. tree_at (frame_heap w) a t' \<longrightarrow> t' = t"
      using tree_at_unique [OF _ t] by blast
    ultimately show ?thesis
      using t length_preorder [of t] by blast
  qed
  then show ?thesis
    by (simp add: frames_def)
qed

theorem frames_is_preorder_witness:
  "m_mainFrame ex_tree = Some 0 \<and>
   (\<exists>t. tree_at (frame_heap ex_tree) 0 t \<and>
        frames (height t) ex_tree = Some (Normal (preorder t)) \<and>
        length (preorder t) = 1 + descendants t) \<and>
   tree_at (frame_heap ex_tree) 0 (Node 0 [Node 1 [Node 3 []], Node 2 []]) \<and>
   frames 3 ex_tree = Some (Normal [0, 1, 3, 2]) \<and>
   m_mainFrame FrameManager_new = None \<and>
   frames 3 FrameManager_new = Some (Throw (cannot_read ''_children'' ''null''))"
proof -
  have main: "m_mainFrame ex_tree = Some 0"
    by (simp add: ex_defs op_defs prim_defs)
  have tree: "tree_at (frame_heap ex_tree) 0 (Node 0 [Node 1 [Node 3 []], Node 2 []])"
    by (simp add: ex_defs op_defs prim_defs)
  have run: "frames 3 ex_tree = Some (Normal [0, 1, 3, 2])"
    by (simp add: frames_def ex_defs op_defs prim_defs eval_nat_numeral)
  have none: "m_mainFrame FrameManager_new = None"
    by (simp add: FrameManager_new_def)
  from frames_is_preorder [OF reachable_ex_tree] main
  have ex: "\<exists>t. tree_at (frame_heap ex_tree) 0 t \<and>
        frames (height t) ex_tree = Some (Normal (preorder t)) \<and>
        length (preorder t) = 1 + descendants t"
    by auto
  from frames_is_preorder [OF reachable.constructed] none
  have thrown: "frames 3 FrameManager_new = Some (Throw (cannot_read ''_children'' ''null''))"
    by blast
  show ?thesis
    by (intro conjI main ex tree run none thrown)
qed

text \<open>The claim as written (an empty or undefined result rather than a failure) fails on
  the freshly constructed manager.\<close>

theorem frames_without_main_frame_counterexample:
  "frames 1 FrameManager_new = Some (Throw (TypeError ''Cannot read property _children of null''))"
  by (simp add: frames_def FrameManager_new_def cannot_read_def)


end
